theory Spec2Isabelle
  imports Complex_Main "HOL-Library.Word"
begin

unbundle bit_operations_syntax

section \<open>Strings and JSON values\<close>

text \<open>
  A JavaScript string is a sequence of 16-bit code units. String constants of the
  server (\<^verbatim>\<open>"user"\<close>, \<^verbatim>\<open>"Present"\<close>, property names) are written \<open>js ''...''\<close>.
\<close>

type_synonym char16 = "16 word"
type_synonym jstring = "char16 list"

definition js :: "string \<Rightarrow> jstring" where
  "js s = map (\<lambda>c. of_char c) s"

text \<open>
  The values that \<^verbatim>\<open>JSON.parse\<close> and the body parser produce. A number carries the exact
  rational value of its literal (the rounding to a double is not modelled; it matters
  only for comparisons between number literals, none of which the server's data uses).
  An object keeps its members in source order; a repeated key is read as its last
  occurrence, as \<^verbatim>\<open>JSON.parse\<close> does.
\<close>

datatype json =
    JNull
  | JBool bool
  | JNumber rat
  | JString jstring
  | JArray "json list"
  | JObject "(jstring \<times> json) list"

text \<open>\<^verbatim>\<open>!v\<close> is true for \<^verbatim>\<open>undefined\<close> (here \<open>None\<close>), \<^verbatim>\<open>null\<close>, \<^verbatim>\<open>false\<close>, \<^verbatim>\<open>0\<close> and \<^verbatim>\<open>""\<close>.\<close>

fun truthy :: "json \<Rightarrow> bool" where
  "truthy JNull = False"
| "truthy (JBool b) = b"
| "truthy (JNumber n) = (n \<noteq> 0)"
| "truthy (JString t) = (t \<noteq> [])"
| "truthy (JArray _) = True"
| "truthy (JObject _) = True"

fun falsy :: "json option \<Rightarrow> bool" where
  "falsy None = True"
| "falsy (Some v) = (\<not> truthy v)"

text \<open>
  \<^verbatim>\<open>a === b\<close> on two values read from different properties of parsed JSON: primitives
  are compared by type and value, two arrays or objects are never the same reference.
\<close>

fun strict_eq :: "json \<Rightarrow> json \<Rightarrow> bool" where
  "strict_eq JNull JNull = True"
| "strict_eq (JBool a) (JBool b) = (a = b)"
| "strict_eq (JNumber a) (JNumber b) = (a = b)"
| "strict_eq (JString a) (JString b) = (a = b)"
| "strict_eq _ _ = False"

fun strict_neq :: "json option \<Rightarrow> json \<Rightarrow> bool" where
  "strict_neq None b = True"
| "strict_neq (Some a) b = (\<not> strict_eq a b)"

datatype error =
    BadRequest
  | MalformedPayload
  | MissingIdentityField
  | IdentityNotFound
  | GroupMismatch
  | InternalError

text \<open>
  \<^verbatim>\<open>v.key\<close> for a key that no prototype defines: reading a property of \<^verbatim>\<open>null\<close> throws
  a TypeError (which the route's outer \<^verbatim>\<open>catch\<close> turns into the 500 response); an
  object yields its own member; every other value yields \<^verbatim>\<open>undefined\<close>.
\<close>

fun get_prop :: "json \<Rightarrow> jstring \<Rightarrow> error + json option" where
  "get_prop JNull k = Inl InternalError"
| "get_prop (JObject ms) k = Inr (map_of (rev ms) k)"
| "get_prop _ k = Inr None"

section \<open>\<^verbatim>\<open>JSON.parse\<close>\<close>

subsection \<open>Lexical structure\<close>

datatype token =
    TLBrace | TRBrace | TLBracket | TRBracket | TColon | TComma
  | TStr jstring | TNum rat | TTrue | TFalse | TNull

definition is_ws :: "char16 \<Rightarrow> bool" where
  "is_ws c = (c = 0x09 \<or> c = 0x0A \<or> c = 0x0D \<or> c = 0x20)"

definition is_digit :: "char16 \<Rightarrow> bool" where
  "is_digit c = (0x30 \<le> c \<and> c \<le> 0x39)"

definition hexval :: "char16 \<Rightarrow> nat option" where
  "hexval c =
     (if 0x30 \<le> c \<and> c \<le> 0x39 then Some (unat c - 48)
      else if 0x61 \<le> c \<and> c \<le> 0x66 then Some (unat c - 87)
      else if 0x41 \<le> c \<and> c \<le> 0x46 then Some (unat c - 55)
      else None)"

definition hex4 :: "char16 \<Rightarrow> char16 \<Rightarrow> char16 \<Rightarrow> char16 \<Rightarrow> char16 option" where
  "hex4 a b c d =
     (case (hexval a, hexval b, hexval c, hexval d) of
        (Some p, Some q, Some r, Some s) \<Rightarrow> Some (of_nat (((p * 16 + q) * 16 + r) * 16 + s))
      | _ \<Rightarrow> None)"

text \<open>The single-character escapes \<^verbatim>\<open>\" \\ \/ \b \f \n \r \t\<close>.\<close>

definition unescape :: "char16 \<Rightarrow> char16 option" where
  "unescape e =
     (if e = 0x22 then Some 0x22
      else if e = 0x5C then Some 0x5C
      else if e = 0x2F then Some 0x2F
      else if e = 0x62 then Some 0x08
      else if e = 0x66 then Some 0x0C
      else if e = 0x6E then Some 0x0A
      else if e = 0x72 then Some 0x0D
      else if e = 0x74 then Some 0x09
      else None)"

text \<open>
  The characters of a string literal after its opening quote, up to and including the
  closing quote: the decoded string and the rest of the input.
\<close>

fun string_body :: "jstring \<Rightarrow> (jstring \<times> jstring) option" where
  "string_body [] = None"
| "string_body (c # cs) =
     (if c = 0x22 then Some ([], cs)
      else if c = 0x5C then
        (case cs of
           [] \<Rightarrow> None
         | e # es \<Rightarrow>
             if e = 0x75 then
               (case es of
                  h1 # h2 # h3 # h4 # rest \<Rightarrow>
                    (case hex4 h1 h2 h3 h4 of
                       None \<Rightarrow> None
                     | Some v \<Rightarrow> map_option (apfst ((#) v)) (string_body rest))
                | _ \<Rightarrow> None)
             else
               (case unescape e of
                  None \<Rightarrow> None
                | Some v \<Rightarrow> map_option (apfst ((#) v)) (string_body es)))
      else if c < 0x20 then None
      else map_option (apfst ((#) c)) (string_body cs))"

definition nat_of_digits :: "jstring \<Rightarrow> nat" where
  "nat_of_digits ds = foldl (\<lambda>a d. 10 * a + (unat d - 48)) 0 ds"

text \<open>The integer part of a number: \<^verbatim>\<open>0\<close>, or a non-zero digit followed by digits.\<close>

definition lex_int :: "jstring \<Rightarrow> (jstring \<times> jstring) option" where
  "lex_int cs =
     (case cs of
        [] \<Rightarrow> None
      | d # r \<Rightarrow>
          if d = 0x30 then Some ([d], r)
          else if is_digit d then Some (d # takeWhile is_digit r, dropWhile is_digit r)
          else None)"

text \<open>An optional fraction: a dot followed by at least one digit.\<close>

definition lex_frac :: "jstring \<Rightarrow> (jstring \<times> jstring) option" where
  "lex_frac cs =
     (case cs of
        [] \<Rightarrow> Some ([], cs)
      | c # r \<Rightarrow>
          if c = 0x2E then
            (if takeWhile is_digit r = [] then None
             else Some (takeWhile is_digit r, dropWhile is_digit r))
          else Some ([], cs))"

text \<open>An optional exponent: \<^verbatim>\<open>e\<close> or \<^verbatim>\<open>E\<close>, an optional sign, at least one digit.\<close>

definition lex_exp :: "jstring \<Rightarrow> ((bool \<times> nat) \<times> jstring) option" where
  "lex_exp cs =
     (case cs of
        [] \<Rightarrow> Some ((False, 0), cs)
      | c # r \<Rightarrow>
          if c = 0x65 \<or> c = 0x45 then
            (let (neg, r') =
               (case r of
                  [] \<Rightarrow> (False, r)
                | g # r2 \<Rightarrow>
                    if g = 0x2B then (False, r2)
                    else if g = 0x2D then (True, r2)
                    else (False, r))
             in if takeWhile is_digit r' = [] then None
                else Some ((neg, nat_of_digits (takeWhile is_digit r')), dropWhile is_digit r'))
          else Some ((False, 0), cs))"

definition number_value :: "bool \<Rightarrow> jstring \<Rightarrow> jstring \<Rightarrow> bool \<times> nat \<Rightarrow> rat" where
  "number_value neg ip fp ex =
     (let m = of_nat (nat_of_digits ip) + of_nat (nat_of_digits fp) / 10 ^ length fp;
          v = (if fst ex then m / 10 ^ snd ex else m * 10 ^ snd ex)
      in if neg then - v else v)"

definition lex_number :: "jstring \<Rightarrow> (rat \<times> jstring) option" where
  "lex_number cs =
     (let (neg, r0) = (case cs of [] \<Rightarrow> (False, cs) | c # r \<Rightarrow> if c = 0x2D then (True, r) else (False, cs))
      in case lex_int r0 of
           None \<Rightarrow> None
         | Some (ip, r1) \<Rightarrow>
             (case lex_frac r1 of
                None \<Rightarrow> None
              | Some (fp, r2) \<Rightarrow>
                  (case lex_exp r2 of
                     None \<Rightarrow> None
                   | Some (ex, r3) \<Rightarrow> Some (number_value neg ip fp ex, r3))))"

fun strip_prefix :: "jstring \<Rightarrow> jstring \<Rightarrow> jstring option" where
  "strip_prefix [] cs = Some cs"
| "strip_prefix (p # ps) [] = None"
| "strip_prefix (p # ps) (c # cs) = (if p = c then strip_prefix ps cs else None)"

lemma string_body_length:
  "string_body cs = Some (t, r) \<Longrightarrow> length r < length cs"
proof (induction cs arbitrary: t r rule: string_body.induct)
  case 1
  then show ?case by simp
next
  case (2 c cs)
  then show ?case
    by (fastforce split: if_splits list.splits option.splits)
qed

lemma lex_int_length: "lex_int cs = Some (ip, r) \<Longrightarrow> length r < length cs"
  by (auto simp: lex_int_def less_Suc_eq_le length_dropWhile_le split: list.splits if_splits)

lemma lex_frac_length: "lex_frac cs = Some (fp, r) \<Longrightarrow> length r \<le> length cs"
  by (auto simp: lex_frac_def le_Suc_eq length_dropWhile_le le_SucI split: list.splits if_splits)

lemma lex_exp_length: "lex_exp cs = Some (ex, r) \<Longrightarrow> length r \<le> length cs"
  by (auto simp: lex_exp_def Let_def length_dropWhile_le le_SucI
      split: list.splits if_splits prod.splits)

lemma lex_number_length: "lex_number cs = Some (n, r) \<Longrightarrow> length r < length cs"
proof -
  assume a: "lex_number cs = Some (n, r)"
  obtain neg r0 where nr: "(case cs of [] \<Rightarrow> (False, cs) | c # r \<Rightarrow> if c = 0x2D then (True, r) else (False, cs)) = (neg, r0)"
    by (cases "(case cs of [] \<Rightarrow> (False, cs) | c # r \<Rightarrow> if c = 0x2D then (True, r) else (False, cs))") auto
  then have l0: "length r0 \<le> length cs"
    by (auto split: list.splits if_splits)
  from a nr obtain ip r1 fp r2 ex where
    "lex_int r0 = Some (ip, r1)" "lex_frac r1 = Some (fp, r2)" "lex_exp r2 = Some (ex, r)"
    by (auto simp: lex_number_def split: option.splits)
  then have "length r1 < length r0" "length r2 \<le> length r1" "length r \<le> length r2"
    by (auto dest: lex_int_length lex_frac_length lex_exp_length)
  with l0 show ?thesis by linarith
qed

lemma strip_prefix_length: "strip_prefix ps cs = Some r \<Longrightarrow> length r \<le> length cs"
  by (induction ps cs rule: strip_prefix.induct) (auto split: if_splits)

function tokenize :: "jstring \<Rightarrow> token list option" where
  "tokenize [] = Some []"
| "tokenize (c # cs) =
     (if is_ws c then tokenize cs
      else if c = 0x7B then map_option ((#) TLBrace) (tokenize cs)
      else if c = 0x7D then map_option ((#) TRBrace) (tokenize cs)
      else if c = 0x5B then map_option ((#) TLBracket) (tokenize cs)
      else if c = 0x5D then map_option ((#) TRBracket) (tokenize cs)
      else if c = 0x3A then map_option ((#) TColon) (tokenize cs)
      else if c = 0x2C then map_option ((#) TComma) (tokenize cs)
      else if c = 0x22 then
        (case string_body cs of
           None \<Rightarrow> None
         | Some (t, r) \<Rightarrow> map_option ((#) (TStr t)) (tokenize r))
      else if c = 0x2D \<or> is_digit c then
        (case lex_number (c # cs) of
           None \<Rightarrow> None
         | Some (n, r) \<Rightarrow> map_option ((#) (TNum n)) (tokenize r))
      else if c = 0x74 then
        (case strip_prefix (js ''rue'') cs of
           None \<Rightarrow> None
         | Some r \<Rightarrow> map_option ((#) TTrue) (tokenize r))
      else if c = 0x66 then
        (case strip_prefix (js ''alse'') cs of
           None \<Rightarrow> None
         | Some r \<Rightarrow> map_option ((#) TFalse) (tokenize r))
      else if c = 0x6E then
        (case strip_prefix (js ''ull'') cs of
           None \<Rightarrow> None
         | Some r \<Rightarrow> map_option ((#) TNull) (tokenize r))
      else None)"
  by pat_completeness auto
termination
proof (relation "measure length")
qed (auto dest: string_body_length lex_number_length strip_prefix_length
      simp: less_Suc_eq_le le_imp_less_Suc)

subsection \<open>Grammar\<close>

text \<open>
  The parser reads the token list left to right with a stack of the arrays and objects
  that are still open: \<open>InArr xs\<close> holds the elements read so far, \<open>InObj ms k\<close>
  the members read so far and the key whose value is being read.
\<close>

datatype ctx = InArr "json list" | InObj "(jstring \<times> json) list" jstring

fun p_value :: "ctx list \<Rightarrow> token list \<Rightarrow> json option"
  and p_key :: "(jstring \<times> json) list \<Rightarrow> ctx list \<Rightarrow> token list \<Rightarrow> json option"
  and p_after :: "json \<Rightarrow> ctx list \<Rightarrow> token list \<Rightarrow> json option" where
  "p_value st [] = None"
| "p_value st (TStr t # ts) = p_after (JString t) st ts"
| "p_value st (TNum n # ts) = p_after (JNumber n) st ts"
| "p_value st (TTrue # ts) = p_after (JBool True) st ts"
| "p_value st (TFalse # ts) = p_after (JBool False) st ts"
| "p_value st (TNull # ts) = p_after JNull st ts"
| "p_value st (TLBracket # TRBracket # ts) = p_after (JArray []) st ts"
| "p_value st (TLBracket # ts) = p_value (InArr [] # st) ts"
| "p_value st (TLBrace # TRBrace # ts) = p_after (JObject []) st ts"
| "p_value st (TLBrace # ts) = p_key [] st ts"
| "p_value st (_ # ts) = None"
| "p_key ms st (TStr k # TColon # ts) = p_value (InObj ms k # st) ts"
| "p_key ms st _ = None"
| "p_after v [] [] = Some v"
| "p_after v [] (_ # _) = None"
| "p_after v (InArr xs # st) (TComma # ts) = p_value (InArr (xs @ [v]) # st) ts"
| "p_after v (InArr xs # st) (TRBracket # ts) = p_after (JArray (xs @ [v])) st ts"
| "p_after v (InObj ms k # st) (TComma # ts) = p_key (ms @ [(k, v)]) st ts"
| "p_after v (InObj ms k # st) (TRBrace # ts) = p_after (JObject (ms @ [(k, v)])) st ts"
| "p_after v _ _ = None"

text \<open>\<^verbatim>\<open>JSON.parse(text)\<close>: \<open>None\<close> stands for the SyntaxError it throws.\<close>

definition JSON_parse :: "jstring \<Rightarrow> json option" where
  "JSON_parse text = (case tokenize text of None \<Rightarrow> None | Some ts \<Rightarrow> p_value [] ts)"

section \<open>\<^verbatim>\<open>JSON.stringify\<close> of an object of strings\<close>

text \<open>
  \<^verbatim>\<open>QuoteJSONString\<close> of ECMAScript: the two-character escapes, \<^verbatim>\<open>\uXXXX\<close> (lower-case
  digits) for the other control characters and for a surrogate that is not part of a
  pair, every other code unit as it is.
\<close>

definition hexdigit :: "nat \<Rightarrow> char16" where
  "hexdigit n = (if n < 10 then of_nat (48 + n) else of_nat (87 + n))"

definition unicode_escape :: "char16 \<Rightarrow> jstring" where
  "unicode_escape c =
     [0x5C, 0x75, hexdigit (unat c div 4096), hexdigit (unat c div 256 mod 16),
      hexdigit (unat c div 16 mod 16), hexdigit (unat c mod 16)]"

definition is_high_surrogate :: "char16 \<Rightarrow> bool" where
  "is_high_surrogate c = (0xD800 \<le> c \<and> c \<le> 0xDBFF)"

definition is_low_surrogate :: "char16 \<Rightarrow> bool" where
  "is_low_surrogate c = (0xDC00 \<le> c \<and> c \<le> 0xDFFF)"

definition quote_unit :: "char16 \<Rightarrow> jstring" where
  "quote_unit c =
     (if c = 0x08 then [0x5C, 0x62]
      else if c = 0x09 then [0x5C, 0x74]
      else if c = 0x0A then [0x5C, 0x6E]
      else if c = 0x0C then [0x5C, 0x66]
      else if c = 0x0D then [0x5C, 0x72]
      else if c = 0x22 then [0x5C, 0x22]
      else if c = 0x5C then [0x5C, 0x5C]
      else if c < 0x20 then unicode_escape c
      else [c])"

fun quote_body :: "jstring \<Rightarrow> jstring" where
  "quote_body [] = []"
| "quote_body [c] =
     (if is_high_surrogate c \<or> is_low_surrogate c then unicode_escape c else quote_unit c)"
| "quote_body (c # d # cs) =
     (if is_high_surrogate c then
        (if is_low_surrogate d then c # d # quote_body cs
         else unicode_escape c @ quote_body (d # cs))
      else if is_low_surrogate c then unicode_escape c @ quote_body (d # cs)
      else quote_unit c @ quote_body (d # cs))"

lemma unat_hexdigit:
  assumes "n < 16"
  shows "unat (hexdigit n) = (if n < 10 then 48 + n else 87 + n)"
proof -
  have "unat (word_of_nat (48 + n) :: char16) = 48 + n"
    by (rule of_nat_inverse [OF refl]) (use assms in simp)
  moreover have "unat (word_of_nat (87 + n) :: char16) = 87 + n"
    by (rule of_nat_inverse [OF refl]) (use assms in simp)
  ultimately show ?thesis
    unfolding hexdigit_def by (simp only: if_distrib [of unat] split: if_splits) 
qed

lemma hexval_hexdigit: "n < 16 \<Longrightarrow> hexval (hexdigit n) = Some n"
  by (simp add: hexval_def word_le_nat_alt unat_hexdigit)

lemma hex_digits_nat:
  "((n div 4096 * 16 + n div 256 mod 16) * 16 + n div 16 mod 16) * 16 + n mod 16 = (n::nat)"
proof -
  have a: "n div 256 = n div 16 div 16"
    by (simp add: div_mult2_eq)
  have b: "n div 4096 = n div 16 div 16 div 16"
    by (simp add: div_mult2_eq)
  show ?thesis
    unfolding a b by (simp add: div_mult_mod_eq)
qed

lemma hex4_escape: "hex4 (hexdigit (unat c div 4096)) (hexdigit (unat c div 256 mod 16))
      (hexdigit (unat c div 16 mod 16)) (hexdigit (unat c mod 16)) = Some (c::char16)"
proof -
  have "unat c < 65536"
    using unsigned_less [of c, where 'a = nat] by simp
  then have d: "unat c div 4096 < 16"
    by (simp add: less_mult_imp_div_less)
  have e: "(word_of_nat (((unat c div 4096 * 16 + unat c div 256 mod 16) * 16 + unat c div 16 mod 16) * 16 + unat c mod 16) :: char16) = c"
    by (simp only: hex_digits_nat) simp
  show ?thesis
    unfolding hex4_def using d e by (simp only: hexval_hexdigit) simp
qed


lemma string_body_unicode_escape:
  "string_body (unicode_escape c @ r) = map_option (apfst ((#) c)) (string_body r)"
  by (simp add: unicode_escape_def hex4_escape)

lemma string_body_quote_unit:
  "string_body (quote_unit c @ r) = map_option (apfst ((#) c)) (string_body r)"
  by (simp add: quote_unit_def unescape_def string_body_unicode_escape)

lemma string_body_raw_pair:
  "is_high_surrogate c \<Longrightarrow> is_low_surrogate d \<Longrightarrow>
   string_body (c # d # r) = map_option (apfst ((@) [c, d])) (string_body r)"
  by (auto simp: is_high_surrogate_def is_low_surrogate_def word_le_nat_alt word_less_nat_alt
      option.map_comp comp_def apfst_def map_prod_def split_def)

lemma string_body_close: "string_body (0x22 # r) = Some ([], r)"
  by simp

lemma string_body_quote_body:
  "string_body (quote_body t @ 0x22 # r) = Some (t, r)"
  by (induction t rule: quote_body.induct)
    (simp_all add: string_body_unicode_escape string_body_quote_unit string_body_raw_pair
      string_body_close del: string_body.simps)

definition QuoteJSONString :: "jstring \<Rightarrow> jstring" where
  "QuoteJSONString t = 0x22 # quote_body t @ [0x22]"

fun stringify_members :: "(jstring \<times> jstring) list \<Rightarrow> jstring" where
  "stringify_members [] = []"
| "stringify_members [(k, v)] = QuoteJSONString k @ 0x3A # QuoteJSONString v"
| "stringify_members ((k, v) # m # ms) =
     QuoteJSONString k @ 0x3A # QuoteJSONString v @ 0x2C # stringify_members (m # ms)"

definition JSON_stringify_obj :: "(jstring \<times> jstring) list \<Rightarrow> jstring" where
  "JSON_stringify_obj ms = 0x7B # stringify_members ms @ [0x7D]"


lemma tokenize_quote:
  "tokenize (QuoteJSONString t @ r) = map_option ((#) (TStr t)) (tokenize r)"
  by (simp add: QuoteJSONString_def is_ws_def string_body_quote_body)

fun member_tokens :: "(jstring \<times> jstring) list \<Rightarrow> token list" where
  "member_tokens [] = []"
| "member_tokens [(k, v)] = [TStr k, TColon, TStr v]"
| "member_tokens ((k, v) # m # ms) = TStr k # TColon # TStr v # TComma # member_tokens (m # ms)"

lemma tokenize_colon: "tokenize (0x3A # r) = map_option ((#) TColon) (tokenize r)"
  by (simp add: is_ws_def)

lemma tokenize_comma: "tokenize (0x2C # r) = map_option ((#) TComma) (tokenize r)"
  by (simp add: is_ws_def)

lemma tokenize_members:
  "tokenize (stringify_members ms @ r) = map_option ((@) (member_tokens ms)) (tokenize r)"
  by (induction ms rule: stringify_members.induct)
    (simp_all add: tokenize_quote tokenize_colon tokenize_comma option.map_comp comp_def
      option.map_ident del: tokenize.simps(2))

definition string_members :: "(jstring \<times> jstring) list \<Rightarrow> (jstring \<times> json) list" where
  "string_members ms = map (\<lambda>(k, v). (k, JString v)) ms"

lemma p_key_members:
  "ms \<noteq> [] \<Longrightarrow>
   p_key acc st (member_tokens ms @ TRBrace # ts) = p_after (JObject (acc @ string_members ms)) st ts"
  by (induction ms arbitrary: acc rule: member_tokens.induct) (simp_all add: string_members_def)

lemma tokenize_stringify_obj:
  "tokenize (JSON_stringify_obj ms) = Some (TLBrace # member_tokens ms @ [TRBrace])"
  using tokenize_members [of ms "[0x7D]"] by (simp add: JSON_stringify_obj_def is_ws_def)

lemma JSON_parse_stringify_obj:
  "JSON_parse (JSON_stringify_obj ms) = Some (JObject (string_members ms))"
proof (cases ms)
  case Nil
  then show ?thesis
    by (simp add: JSON_parse_def tokenize_stringify_obj string_members_def)
next
  case (Cons m ms')
  then have "p_value [] (TLBrace # member_tokens ms @ [TRBrace]) = p_key [] [] (member_tokens ms @ [TRBrace])"
    by (cases m; cases ms') auto
  with Cons show ?thesis
    using p_key_members [of ms "[]" "[]" "[]"]
    by (simp add: JSON_parse_def tokenize_stringify_obj)
qed

section \<open>Dates\<close>

text \<open>
  A time value is a number of milliseconds. The model reads every time value on the
  local civil time line and takes the zone offset as constant, so that \<^verbatim>\<open>LocalTime\<close>
  and \<^verbatim>\<open>UTC\<close> of ECMAScript are translations that cancel. The definitions follow
  the abstract operations of ECMAScript's Date objects.
\<close>

definition msPerDay :: int where
  "msPerDay = 86400000"

definition Day :: "int \<Rightarrow> int" where
  "Day t = t div msPerDay"

definition MakeTime :: "int \<Rightarrow> int \<Rightarrow> int \<Rightarrow> int \<Rightarrow> int" where
  "MakeTime h m s ms = h * 3600000 + m * 60000 + s * 1000 + ms"

definition MakeDate :: "int \<Rightarrow> int \<Rightarrow> int" where
  "MakeDate day time = day * msPerDay + time"

text \<open>A time value beyond 100,000,000 days from the epoch is the Invalid Date (\<open>None\<close>).\<close>

definition TimeClip :: "int \<Rightarrow> int option" where
  "TimeClip t = (if \<bar>t\<bar> \<le> 8640000000000000 then Some t else None)"

text \<open>
  \<^verbatim>\<open>d.setHours(h, m, s, ms)\<close> keeps the day of \<open>t\<close> and replaces the time within the
  day. (The clock's readings are far from the limits of \<open>TimeClip\<close>, which is left out
  here.)
\<close>

definition setHours :: "int \<Rightarrow> int \<Rightarrow> int \<Rightarrow> int \<Rightarrow> int \<Rightarrow> int" where
  "setHours t h m s ms = MakeDate (Day t) (MakeTime h m s ms)"

definition DayFromYear :: "int \<Rightarrow> int" where
  "DayFromYear y =
     365 * (y - 1970) + (y - 1969) div 4 - (y - 1901) div 100 + (y - 1601) div 400"

definition DaysInYear :: "int \<Rightarrow> int" where
  "DaysInYear y =
     (if y mod 4 \<noteq> 0 then 365
      else if y mod 100 \<noteq> 0 then 366
      else if y mod 400 \<noteq> 0 then 365
      else 366)"

text \<open>
  \<^verbatim>\<open>YearFromTime\<close> is the largest year whose first day is not after the given day. It is
  computed from an estimate that is off by at most one year.
\<close>

definition YearFromDay :: "int \<Rightarrow> int" where
  "YearFromDay d =
     (let y = 1970 + (400 * d) div 146097
      in if d < DayFromYear y then y - 1
         else if DayFromYear (y + 1) \<le> d then y + 1
         else y)"

definition InLeapYear :: "int \<Rightarrow> int" where
  "InLeapYear d = (if DaysInYear (YearFromDay d) = 366 then 1 else 0)"

definition DayWithinYear :: "int \<Rightarrow> int" where
  "DayWithinYear d = d - DayFromYear (YearFromDay d)"

definition MonthFromDay :: "int \<Rightarrow> int" where
  "MonthFromDay d =
     (let w = DayWithinYear d; l = InLeapYear d
      in if w < 31 then 0
         else if w < 59 + l then 1
         else if w < 90 + l then 2
         else if w < 120 + l then 3
         else if w < 151 + l then 4
         else if w < 181 + l then 5
         else if w < 212 + l then 6
         else if w < 243 + l then 7
         else if w < 273 + l then 8
         else if w < 304 + l then 9
         else if w < 334 + l then 10
         else 11)"

definition DateFromDay :: "int \<Rightarrow> int" where
  "DateFromDay d =
     (let w = DayWithinYear d; l = InLeapYear d; m = MonthFromDay d
      in if m = 0 then w + 1
         else if m = 1 then w - 30
         else if m = 2 then w - 58 - l
         else if m = 3 then w - 89 - l
         else if m = 4 then w - 119 - l
         else if m = 5 then w - 150 - l
         else if m = 6 then w - 180 - l
         else if m = 7 then w - 211 - l
         else if m = 8 then w - 242 - l
         else if m = 9 then w - 272 - l
         else if m = 10 then w - 303 - l
         else w - 333 - l)"

text \<open>The day number of the first day of month \<open>mn\<close> (0 to 11) within its year.\<close>

definition month_offset :: "int \<Rightarrow> int \<Rightarrow> int" where
  "month_offset mn l =
     (if mn = 0 then 0
      else if mn = 1 then 31
      else if mn = 2 then 59 + l
      else if mn = 3 then 90 + l
      else if mn = 4 then 120 + l
      else if mn = 5 then 151 + l
      else if mn = 6 then 181 + l
      else if mn = 7 then 212 + l
      else if mn = 8 then 243 + l
      else if mn = 9 then 273 + l
      else if mn = 10 then 304 + l
      else 334 + l)"

text \<open>
  \<^verbatim>\<open>MakeDay(year, month, date)\<close>: a month index outside 0 to 11 carries into the year, a
  date outside the month carries into the neighbouring months.
\<close>

definition MakeDay :: "int \<Rightarrow> int \<Rightarrow> int \<Rightarrow> int" where
  "MakeDay year month date =
     (let ym = year + month div 12; mn = month mod 12
      in DayFromYear ym + month_offset mn (if DaysInYear ym = 366 then 1 else 0) + date - 1)"

text \<open>
  \<^verbatim>\<open>new Date(year, month, date, hours, minutes, seconds, ms)\<close>. A year from 0 to 99 stands
  for 1900 plus that year.
\<close>

definition Date_new :: "int \<Rightarrow> int \<Rightarrow> int \<Rightarrow> int \<Rightarrow> int \<Rightarrow> int \<Rightarrow> int \<Rightarrow> int option" where
  "Date_new year month date hours minutes seconds ms =
     (let yr = (if 0 \<le> year \<and> year \<le> 99 then 1900 + year else year)
      in TimeClip (MakeDate (MakeDay yr month date) (MakeTime hours minutes seconds ms)))"

definition getDate :: "int \<Rightarrow> int" where
  "getDate t = DateFromDay (Day t)"

section \<open>The collections\<close>

text \<open>
  The documents of the two collections, with the fields of the schemas. A collection is
  the list of its documents in insertion order; a document is identified by its
  position. (The \<^verbatim>\<open>_id\<close>, the version key and the timestamps of a document are not
  modelled; no route reads them.) Failures of the connection to the store are not
  modelled either.
\<close>

record user =
  name :: jstring
  userId :: jstring
  bus :: jstring
  role :: jstring
  password :: jstring
  qrCode :: "jstring option"
  attendance :: jstring

record attendance_doc =
  a_userId :: jstring
  a_bus :: jstring
  a_date :: int
  a_status :: jstring

record store =
  users :: "user list"
  ledger :: "attendance_doc list"

text \<open>\<^verbatim>\<open>findOne\<close>: the first document that matches, with its position.\<close>

fun first_from :: "nat \<Rightarrow> ('a \<Rightarrow> bool) \<Rightarrow> 'a list \<Rightarrow> (nat \<times> 'a) option" where
  "first_from i P [] = None"
| "first_from i P (x # xs) = (if P x then Some (i, x) else first_from (Suc i) P xs)"

definition findOne :: "('a \<Rightarrow> bool) \<Rightarrow> 'a list \<Rightarrow> (nat \<times> 'a) option" where
  "findOne P xs = first_from 0 P xs"

text \<open>
  \<^verbatim>\<open>User.findOne({ userId: key })\<close>. A string key is compared with the stored keys. What
  the query layer does with a key that is not a string (cast it to a string, read it as
  an operator document, or reject it) is the parameter \<open>cast\<close>: \<open>None\<close> when the key is
  rejected with a CastError, or the condition on stored keys that the key stands for.
\<close>

definition User_findOne ::
  "(json \<Rightarrow> (jstring \<Rightarrow> bool) option) \<Rightarrow> user list \<Rightarrow> json \<Rightarrow> error + (nat \<times> user) option" where
  "User_findOne cast us key =
     (case key of
        JString k \<Rightarrow> Inr (findOne (\<lambda>u. userId u = k) us)
      | _ \<Rightarrow>
          (case cast key of
             None \<Rightarrow> Inl InternalError
           | Some P \<Rightarrow> Inr (findOne (\<lambda>u. P (userId u)) us)))"

text \<open>\<^verbatim>\<open>Attendance.findOne({ userId: k, date: { $gte: start, $lt: end } })\<close>.\<close>

definition Attendance_findOne ::
  "attendance_doc list \<Rightarrow> jstring \<Rightarrow> int \<Rightarrow> int \<Rightarrow> (nat \<times> attendance_doc) option" where
  "Attendance_findOne led k start end =
     findOne (\<lambda>r. a_userId r = k \<and> start \<le> a_date r \<and> a_date r < end) led"

section \<open>The routes\<close>

subsection \<open>\<^verbatim>\<open>POST /api/users/register\<close>\<close>

text \<open>
  The body fields are strings or absent (\<open>None\<close>). \<open>hashed\<close> is the result of
  \<^verbatim>\<open>bcrypt.hash\<close>. Saving fails (the 500 response) when the role is outside the enum of the
  schema or the key is already taken (the unique index).
\<close>

definition absent_or_empty :: "jstring option \<Rightarrow> bool" where
  "absent_or_empty v = (case v of None \<Rightarrow> True | Some t \<Rightarrow> t = [])"

definition qrData :: "jstring \<Rightarrow> jstring \<Rightarrow> jstring \<Rightarrow> jstring \<Rightarrow> (jstring \<times> jstring) list" where
  "qrData uid nm b r = [(js ''userId'', uid), (js ''name'', nm), (js ''bus'', b), (js ''role'', r)]"

definition register ::
  "jstring \<Rightarrow> store \<Rightarrow> jstring option \<Rightarrow> jstring option \<Rightarrow> jstring option \<Rightarrow> jstring option
     \<Rightarrow> jstring option \<Rightarrow> (error + jstring \<times> jstring) \<times> store" where
  "register hashed s nm uid b r pw =
     (case (nm, uid, b, r, pw) of
        (Some nm', Some uid', Some b', Some r', Some pw') \<Rightarrow>
          if nm' = [] \<or> b' = [] \<or> r' = [] \<or> pw' = [] \<or> uid' = [] then (Inl BadRequest, s)
          else
            let newUser = \<lparr>name = nm', userId = uid', bus = b', role = r', password = hashed,
                  qrCode = (if r' = js ''user''
                            then Some (JSON_stringify_obj (qrData uid' nm' b' r'))
                            else None),
                  attendance = js ''Absent''\<rparr>
            in if (r' \<noteq> js ''user'' \<and> r' \<noteq> js ''admin'') \<or> list_ex (\<lambda>u. userId u = uid') (users s)
               then (Inl InternalError, s)
               else (Inr (uid', r'), s\<lparr>users := users s @ [newUser]\<rparr>)
      | _ \<Rightarrow> (Inl BadRequest, s))"

subsection \<open>\<^verbatim>\<open>POST /api/qr/scan\<close>\<close>

text \<open>
  \<open>now\<close> is the clock read by \<^verbatim>\<open>new Date()\<close>, \<open>stamp\<close> the clock read by the \<^verbatim>\<open>date\<close>
  default when the new attendance document is built. \<open>scannedData\<close> and \<open>adminBus\<close>
  are the two fields of the request body, \<open>None\<close> when absent.
\<close>

definition parse_scanned :: "json \<Rightarrow> json option" where
  "parse_scanned scannedData =
     (case scannedData of JString t \<Rightarrow> JSON_parse t | _ \<Rightarrow> Some scannedData)"

definition mark_present ::
  "int \<Rightarrow> int \<Rightarrow> store \<Rightarrow> nat \<Rightarrow> user \<Rightarrow> (error + jstring \<times> jstring) \<times> store" where
  "mark_present now stamp s i u =
     (let u' = u\<lparr>attendance := js ''Present''\<rparr>;
          s1 = s\<lparr>users := (users s)[i := u']\<rparr>;
          start = setHours now 0 0 0 0;
          end = setHours start 23 59 59 999;
          s2 = (case Attendance_findOne (ledger s1) (userId u') start end of
                  None \<Rightarrow>
                    s1\<lparr>ledger := ledger s1 @
                      [\<lparr>a_userId = userId u', a_bus = bus u', a_date = stamp,
                        a_status = js ''Present''\<rparr>]\<rparr>
                | Some _ \<Rightarrow> s1)
      in (Inr (name u', bus u'), s2))"

definition scan ::
  "(json \<Rightarrow> (jstring \<Rightarrow> bool) option) \<Rightarrow> int \<Rightarrow> int \<Rightarrow> store \<Rightarrow> json option \<Rightarrow> json option
     \<Rightarrow> (error + jstring \<times> jstring) \<times> store" where
  "scan cast now stamp s scannedData adminBus =
     (if falsy scannedData \<or> falsy adminBus then (Inl BadRequest, s)
      else case (scannedData, adminBus) of
        (Some sd, Some ab) \<Rightarrow>
            (case parse_scanned sd of
               None \<Rightarrow> (Inl MalformedPayload, s)
             | Some parsed \<Rightarrow>
                 (case get_prop parsed (js ''userId'') of
                    Inl e \<Rightarrow> (Inl e, s)
                  | Inr uid \<Rightarrow>
                      if falsy uid then (Inl MissingIdentityField, s)
                      else
                        (case uid of
                           None \<Rightarrow> (Inl MissingIdentityField, s)
                         | Some key \<Rightarrow>
                             (case User_findOne cast (users s) key of
                                Inl e \<Rightarrow> (Inl e, s)
                              | Inr None \<Rightarrow> (Inl IdentityNotFound, s)
                              | Inr (Some (i, u)) \<Rightarrow>
                                  (case get_prop parsed (js ''bus'') of
                                     Inl e \<Rightarrow> (Inl e, s)
                                   | Inr pbus \<Rightarrow>
                                       if strict_neq pbus ab then (Inl GroupMismatch, s)
                                       else mark_present now stamp s i u)))))
      | _ \<Rightarrow> (Inl BadRequest, s))"

subsection \<open>\<^verbatim>\<open>GET /api/attendance/:userId/:month/:year\<close>\<close>

text \<open>
  The month and the year of the path are taken as the integers they denote. An Invalid
  Date in the query is rejected by the query layer (the 500 response);
  \<^verbatim>\<open>getDate()\<close> of an Invalid Date is \<^verbatim>\<open>NaN\<close>, here \<open>None\<close>.
\<close>

record summary =
  s_userId :: jstring
  s_month :: int
  s_year :: int
  totalDays :: "int option"
  presentDays :: int
  absentDays :: "int option"
  details :: "attendance_doc list"

definition monthlySummary :: "store \<Rightarrow> jstring \<Rightarrow> int \<Rightarrow> int \<Rightarrow> (error + summary) \<times> store" where
  "monthlySummary s k month year =
     (case (Date_new year (month - 1) 1 0 0 0 0, Date_new year month 0 23 59 59 0) of
        (Some start, Some end) \<Rightarrow>
          let records = filter (\<lambda>r. a_userId r = k \<and> start \<le> a_date r \<and> a_date r \<le> end) (ledger s);
              present = int (length (filter (\<lambda>r. a_status r = js ''Present'') records));
              total = map_option getDate (Date_new year month 0 0 0 0 0)
          in (Inr \<lparr>s_userId = k, s_month = month, s_year = year, totalDays = total,
                   presentDays = present, absentDays = map_option (\<lambda>t. t - present) total,
                   details = records\<rparr>, s)
      | _ \<Rightarrow> (Inl InternalError, s))"

subsection \<open>\<^verbatim>\<open>POST /api/auto-absent\<close>\<close>

text \<open>\<open>stamp i\<close> is the clock read by the \<^verbatim>\<open>date\<close> default in round \<open>i\<close> of the loop.\<close>

fun autoAbsent_loop ::
  "int \<Rightarrow> int \<Rightarrow> (nat \<Rightarrow> int) \<Rightarrow> nat \<Rightarrow> user list \<Rightarrow> attendance_doc list \<Rightarrow> attendance_doc list" where
  "autoAbsent_loop start end stamp i [] led = led"
| "autoAbsent_loop start end stamp i (u # us) led =
     autoAbsent_loop start end stamp (Suc i) us
       (case Attendance_findOne led (userId u) start end of
          None \<Rightarrow>
            led @ [\<lparr>a_userId = userId u, a_bus = bus u, a_date = stamp i,
                    a_status = js ''Absent''\<rparr>]
        | Some _ \<Rightarrow> led)"

definition autoAbsent :: "int \<Rightarrow> (nat \<Rightarrow> int) \<Rightarrow> store \<Rightarrow> store" where
  "autoAbsent now stamp s =
     (let start = setHours now 0 0 0 0;
          end = setHours start 23 59 59 999
      in s\<lparr>ledger :=
           autoAbsent_loop start end stamp 0 (filter (\<lambda>u. role u = js ''user'') (users s)) (ledger s)\<rparr>)"

subsection \<open>\<^verbatim>\<open>GET /api/users/:bus\<close>\<close>

text \<open>
  The fields of a stored user document, and the projection \<^verbatim>\<open>"-password -qrCode"\<close> that
  drops the named fields from each document of the result.
\<close>

definition user_fields :: "user \<Rightarrow> (jstring \<times> json) list" where
  "user_fields u =
     [(js ''name'', JString (name u)), (js ''userId'', JString (userId u)),
      (js ''bus'', JString (bus u)), (js ''role'', JString (role u)),
      (js ''password'', JString (password u))]
     @ (case qrCode u of None \<Rightarrow> [] | Some q \<Rightarrow> [(js ''qrCode'', JString q)])
     @ [(js ''attendance'', JString (attendance u))]"

definition exclude_fields :: "jstring list \<Rightarrow> (jstring \<times> json) list \<Rightarrow> (jstring \<times> json) list" where
  "exclude_fields ks d = filter (\<lambda>(k, v). \<not> List.member ks k) d"

definition listByGroup :: "store \<Rightarrow> jstring \<Rightarrow> (jstring \<times> json) list list \<times> store" where
  "listByGroup s busNumber =
     (map (\<lambda>u. exclude_fields [js ''password'', js ''qrCode''] (user_fields u))
        (filter (\<lambda>u. bus u = busNumber \<and> role u = js ''user'') (users s)), s)"

section \<open>Sample data\<close>

text \<open>
  The identities and requests used in the concrete checks below. \<open>no_cast\<close> is a query
  layer that rejects every key that is not a string. \<open>alice_qr\<close> is the payload
  issued to Alice when she was registered on bus B1.
\<close>

definition no_cast :: "json \<Rightarrow> (jstring \<Rightarrow> bool) option" where
  "no_cast key = None"

definition alice_qr :: jstring where
  "alice_qr = JSON_stringify_obj (qrData (js ''U1'') (js ''Alice'') (js ''B1'') (js ''user''))"

definition alice :: user where
  "alice = \<lparr>name = js ''Alice'', userId = js ''U1'', bus = js ''B1'', role = js ''user'',
     password = js ''$2a$10$hash'', qrCode = Some alice_qr, attendance = js ''Absent''\<rparr>"

text \<open>Alice after she has been moved to bus B2; her payload still names B1.\<close>

definition alice_moved :: user where
  "alice_moved = alice\<lparr>bus := js ''B2''\<rparr>"

text \<open>Ledger documents of Alice dated \<open>t\<close>, and the object her payload decodes to.\<close>

definition present_row :: "int \<Rightarrow> attendance_doc" where
  "present_row t = \<lparr>a_userId = js ''U1'', a_bus = js ''B1'', a_date = t, a_status = js ''Present''\<rparr>"

definition absent_row :: "int \<Rightarrow> attendance_doc" where
  "absent_row t = \<lparr>a_userId = js ''U1'', a_bus = js ''B1'', a_date = t, a_status = js ''Absent''\<rparr>"

definition alice_payload :: json where
  "alice_payload = JObject [(js ''userId'', JString (js ''U1'')), (js ''name'', JString (js ''Alice'')),
                    (js ''bus'', JString (js ''B1'')), (js ''role'', JString (js ''user''))]"

lemma parse_alice_qr: "parse_scanned (JString alice_qr) = Some alice_payload"
  by code_simp

section \<open>The documents of a day\<close>

text \<open>
  The ledger documents of an identity that the existence check of the scan and of the
  sweep, run at time \<open>t\<close>, can find: those dated from the midnight before \<open>t\<close> up to,
  but excluding, 23:59:59.999 of that day.
\<close>

definition day_rows :: "attendance_doc list \<Rightarrow> jstring \<Rightarrow> int \<Rightarrow> attendance_doc list" where
  "day_rows led k t =
     filter (\<lambda>r. a_userId r = k \<and> setHours t 0 0 0 0 \<le> a_date r
                 \<and> a_date r < setHours (setHours t 0 0 0 0) 23 59 59 999) led"

section \<open>The calendar of the specification\<close>

text \<open>
  The number of days of a month by the standard rule: a year is a leap year when it is
  divisible by 4 and not by 100, or divisible by 400.
\<close>

definition leap_year :: "int \<Rightarrow> bool" where
  "leap_year y = (y mod 4 = 0 \<and> (y mod 100 \<noteq> 0 \<or> y mod 400 = 0))"

definition calendar_days_in_month :: "int \<Rightarrow> int \<Rightarrow> int" where
  "calendar_days_in_month y m =
     (if m = 2 then (if leap_year y then 29 else 28)
      else if m = 4 \<or> m = 6 \<or> m = 9 \<or> m = 11 then 30
      else 31)"

text \<open>
  Every ledger document belongs to an identity of the store. The routes keep this: they
  write documents for identities they have just read, and never delete an identity.
\<close>

definition ledger_of_known :: "store \<Rightarrow> bool" where
  "ledger_of_known s = list_all (\<lambda>e. list_ex (\<lambda>u. userId u = a_userId e) (users s)) (ledger s)"

section \<open>The fields a roster listing may show\<close>

text \<open>
  What the specification allows a caller of the roster listing to see of an identity:
  everything but the credential hash and the QR payload.
\<close>

definition public_fields :: "user \<Rightarrow> (jstring \<times> json) list" where
  "public_fields u =
     [(js ''name'', JString (name u)), (js ''userId'', JString (userId u)),
      (js ''bus'', JString (bus u)), (js ''role'', JString (role u)),
      (js ''attendance'', JString (attendance u))]"

section \<open>Properties of the routes\<close>

lemma exclude_secret_fields:
  "exclude_fields [js ''password'', js ''qrCode''] (user_fields u) = public_fields u"
  by (cases "qrCode u") (simp_all add: exclude_fields_def user_fields_def public_fields_def js_def)

lemma scan_success_cases:
  assumes "scan cast now stamp s sd ab = (Inr r, s')"
  obtains sdv abv parsed key i u pbus where
    "sd = Some sdv" "ab = Some abv" "truthy sdv" "truthy abv"
    "parse_scanned sdv = Some parsed"
    "get_prop parsed (js ''userId'') = Inr (Some key)" "truthy key"
    "User_findOne cast (users s) key = Inr (Some (i, u))"
    "get_prop parsed (js ''bus'') = Inr pbus" "\<not> strict_neq pbus abv"
    "mark_present now stamp s i u = (Inr r, s')"
  using assms
  by (auto simp: scan_def split: option.splits if_splits sum.splits prod.splits)

text \<open>
  Claim C6. Decoding the payload that registration encodes from an identity key, a name,
  a group and a role gives back an object with exactly these four fields, unchanged,
  whatever the four strings are.
\<close>

theorem qr_payload_round_trip:
  "parse_scanned (JString (JSON_stringify_obj (qrData uid nm b r))) =
     Some (JObject [(js ''userId'', JString uid), (js ''name'', JString nm),
                    (js ''bus'', JString b), (js ''role'', JString r)])"
  by (simp add: parse_scanned_def JSON_parse_stringify_obj string_members_def qrData_def)

text \<open>
  Claim C8. When a successful scan adds a document to the ledger, the group of that
  document is the group of the identity as the store holds it when the scan runs, not
  the group that the scanned payload carries.
\<close>

theorem scan_entry_group_from_store:
  assumes "scan cast now stamp s sd ab = (Inr r, s')"
    and "ledger s' \<noteq> ledger s"
  shows "\<exists>sdv parsed key i u.
           sd = Some sdv \<and> parse_scanned sdv = Some parsed
         \<and> get_prop parsed (js ''userId'') = Inr (Some key)
         \<and> User_findOne cast (users s) key = Inr (Some (i, u))
         \<and> ledger s' = ledger s @
              [\<lparr>a_userId = userId u, a_bus = bus u, a_date = stamp, a_status = js ''Present''\<rparr>]"
proof -
  from assms(1) obtain sdv abv parsed key i u pbus where
    h: "sd = Some sdv" "parse_scanned sdv = Some parsed"
      "get_prop parsed (js ''userId'') = Inr (Some key)"
      "User_findOne cast (users s) key = Inr (Some (i, u))"
      "mark_present now stamp s i u = (Inr r, s')"
    by (rule scan_success_cases)
  from h(5) assms(2) have
    "ledger s' = ledger s @
       [\<lparr>a_userId = userId u, a_bus = bus u, a_date = stamp, a_status = js ''Present''\<rparr>]"
    by (auto simp: mark_present_def Let_def split: option.splits)
  with h show ?thesis by blast
qed

lemma scan_alice_moved:
  "scan no_cast 5 6 \<lparr>users = [alice_moved], ledger = []\<rparr>
     (Some (JString alice_qr)) (Some (JString (js ''B1'')))
   = (Inr (js ''Alice'', js ''B2''),
      \<lparr>users = [alice_moved\<lparr>attendance := js ''Present''\<rparr>],
       ledger = [\<lparr>a_userId = js ''U1'', a_bus = js ''B2'', a_date = 6,
                  a_status = js ''Present''\<rparr>]\<rparr>)"
  by code_simp

theorem scan_entry_group_from_store_witness:
  "scan no_cast 5 6 \<lparr>users = [alice_moved], ledger = []\<rparr>
     (Some (JString alice_qr)) (Some (JString (js ''B1'')))
   = (Inr (js ''Alice'', js ''B2''),
      \<lparr>users = [alice_moved\<lparr>attendance := js ''Present''\<rparr>],
       ledger = [\<lparr>a_userId = js ''U1'', a_bus = js ''B2'', a_date = 6,
                  a_status = js ''Present''\<rparr>]\<rparr>)
   \<and> (\<exists>sdv parsed key i u.
         Some (JString alice_qr) = Some sdv \<and> parse_scanned sdv = Some parsed
       \<and> get_prop parsed (js ''userId'') = Inr (Some key)
       \<and> User_findOne no_cast [alice_moved] key = Inr (Some (i, u))
       \<and> [\<lparr>a_userId = js ''U1'', a_bus = js ''B2'', a_date = 6, a_status = js ''Present''\<rparr>] =
           [\<lparr>a_userId = userId u, a_bus = bus u, a_date = 6, a_status = js ''Present''\<rparr>])"
  using scan_entry_group_from_store [OF scan_alice_moved] scan_alice_moved by simp

text \<open>
  Claim C9. The roster listing of a group returns exactly the identities of role
  \<^verbatim>\<open>user\<close> in that group, each with its public fields only: no returned document has a
  \<^verbatim>\<open>password\<close> or a \<^verbatim>\<open>qrCode\<close> field. The store is left as it was.
\<close>

theorem listByGroup_roster:
  "listByGroup s g =
     (map public_fields (filter (\<lambda>u. bus u = g \<and> role u = js ''user'') (users s)), s)
   \<and> list_all (\<lambda>d. map_of d (js ''password'') = None \<and> map_of d (js ''qrCode'') = None)
        (fst (listByGroup s g))"
  by (simp add: listByGroup_def exclude_secret_fields list_all_iff)
    (simp add: public_fields_def js_def)

text \<open>
  Claim C1, as stated, fails: a payload whose group differs from the station's group is
  answered with \<open>IdentityNotFound\<close>, not \<open>GroupMismatch\<close>, when its identity key is not
  in the store, because the identity is looked up before the groups are compared.
\<close>

theorem scan_mismatch_unknown_identity:
  "parse_scanned (JString alice_qr) =
     Some (JObject [(js ''userId'', JString (js ''U1'')), (js ''name'', JString (js ''Alice'')),
                    (js ''bus'', JString (js ''B1'')), (js ''role'', JString (js ''user''))])
   \<and> strict_neq (Some (JString (js ''B1''))) (JString (js ''B2''))
   \<and> scan no_cast 5 6 \<lparr>users = [], ledger = []\<rparr> (Some (JString alice_qr)) (Some (JString (js ''B2'')))
       = (Inl IdentityNotFound, \<lparr>users = [], ledger = []\<rparr>)"
  by code_simp

text \<open>
  Claim C1, amended. A scan request whose decoded payload's group differs from the
  scanning station's group (\<^verbatim>\<open>!==\<close>) always fails and leaves the store unchanged: no
  ledger document is created and no attendance flag is touched. The failure is
  \<open>GroupMismatch\<close> whenever the request passes the earlier checks: both inputs are
  non-empty, the payload has a non-empty identity key, and the key is found in the store.
\<close>

theorem scan_group_mismatch:
  assumes "parse_scanned sd = Some parsed"
    and "get_prop parsed (js ''bus'') = Inr pbus"
    and "strict_neq pbus ab"
  shows "(\<exists>e. scan cast now stamp s (Some sd) (Some ab) = (Inl e, s))
       \<and> (truthy sd \<and> truthy ab \<and> get_prop parsed (js ''userId'') = Inr (Some key) \<and> truthy key
            \<and> User_findOne cast (users s) key = Inr (Some (i, u))
          \<longrightarrow> scan cast now stamp s (Some sd) (Some ab) = (Inl GroupMismatch, s))"
  using assms
  by (auto simp: scan_def split: option.splits sum.splits prod.splits)

theorem scan_group_mismatch_witness:
  "parse_scanned (JString alice_qr) = Some alice_payload
   \<and> get_prop alice_payload (js ''bus'') = Inr (Some (JString (js ''B1'')))
   \<and> strict_neq (Some (JString (js ''B1''))) (JString (js ''B2''))
   \<and> User_findOne no_cast [alice] (JString (js ''U1'')) = Inr (Some (0, alice))
   \<and> scan no_cast 5 6 \<lparr>users = [alice], ledger = []\<rparr> (Some (JString alice_qr)) (Some (JString (js ''B2'')))
       = (Inl GroupMismatch, \<lparr>users = [alice], ledger = []\<rparr>)"
proof -
  have a: "get_prop alice_payload (js ''bus'') = Inr (Some (JString (js ''B1'')))"
    by code_simp
  have b: "strict_neq (Some (JString (js ''B1''))) (JString (js ''B2''))"
    by code_simp
  have c: "get_prop alice_payload (js ''userId'') = Inr (Some (JString (js ''U1'')))"
    by code_simp
  have d: "User_findOne no_cast [alice] (JString (js ''U1'')) = Inr (Some (0, alice))"
    by code_simp
  have e: "truthy (JString alice_qr)" "truthy (JString (js ''B2''))" "truthy (JString (js ''U1''))"
    by code_simp+
  from scan_group_mismatch [OF parse_alice_qr a b, of no_cast 5 6 "\<lparr>users = [alice], ledger = []\<rparr>"
      "JString (js ''U1'')" 0 alice] c d e
  have "scan no_cast 5 6 \<lparr>users = [alice], ledger = []\<rparr> (Some (JString alice_qr)) (Some (JString (js ''B2'')))
       = (Inl GroupMismatch, \<lparr>users = [alice], ledger = []\<rparr>)"
    by simp
  with parse_alice_qr a b d show ?thesis by simp
qed

text \<open>
  Claim C7 says that a scanned payload fails to decode in two ways only. The code has a
  third: the text \<^verbatim>\<open>null\<close> is parsed without error, and reading \<^verbatim>\<open>userId\<close> of the result
  throws; the request ends in the 500 response of the outer handler, neither as a
  malformed payload nor as a missing identity field.
\<close>

theorem scan_null_payload:
  "JSON_parse (js ''null'') = Some JNull
   \<and> scan no_cast 5 6 \<lparr>users = [alice], ledger = []\<rparr> (Some (JString (js ''null''))) (Some (JString (js ''B1'')))
       = (Inl InternalError, \<lparr>users = [alice], ledger = []\<rparr>)"
  by code_simp

text \<open>
  Claim C10. The summary's \<open>absentDays\<close> can be negative: with 29 \<^verbatim>\<open>Present\<close> documents
  of one identity in February 2023 the route reports 28 days, 29 present and -1 absent.
\<close>

theorem monthlySummary_negative_absentDays:
  "\<exists>s k month year r.
      fst (monthlySummary s k month year) = Inr r
    \<and> totalDays r = Some 28 \<and> presentDays r = 29 \<and> absentDays r = Some (- 1)"
proof -
  let ?s = "\<lparr>users = [alice], ledger = replicate 29 (present_row 1676376000000)\<rparr>"
  let ?r = "\<lparr>s_userId = js ''U1'', s_month = 2, s_year = 2023, totalDays = Some 28,
              presentDays = 29, absentDays = Some (- 1),
              details = replicate 29 (present_row 1676376000000)\<rparr>"
  have "fst (monthlySummary ?s (js ''U1'') 2 2023) = Inr ?r"
    by code_simp
  then have "fst (monthlySummary ?s (js ''U1'') 2 2023) = Inr ?r
      \<and> totalDays ?r = Some 28 \<and> presentDays ?r = 29 \<and> absentDays ?r = Some (- 1)"
    by simp
  then show ?thesis by blast
qed

text \<open>
  Claim C4 says that the existence check of the scan and of the sweep sees every
  document dated within the current day up to, but excluding, the next midnight. The
  code's window ends at 23:59:59.999 and excludes that bound: a document dated in the
  last millisecond of the day (86399999 on the first day) is not found, and a scan in
  that millisecond adds a second document for the same identity and day.
\<close>

theorem day_window_misses_last_millisecond:
  "setHours 86399999 0 0 0 0 = 0
   \<and> setHours (setHours 86399999 0 0 0 0) 23 59 59 999 = 86399999
   \<and> Attendance_findOne [present_row 86399999] (js ''U1'')
        (setHours 86399999 0 0 0 0) (setHours (setHours 86399999 0 0 0 0) 23 59 59 999) = None
   \<and> scan no_cast 86399999 86399999 \<lparr>users = [alice], ledger = [present_row 86399999]\<rparr>
        (Some (JString alice_qr)) (Some (JString (js ''B1'')))
      = (Inr (js ''Alice'', js ''B1''),
         \<lparr>users = [alice\<lparr>attendance := js ''Present''\<rparr>],
          ledger = [present_row 86399999, present_row 86399999]\<rparr>)"
  by code_simp

text \<open>
  Claim C5 says that a second sweep on the same day writes nothing. Two sweeps in the
  last millisecond of a day both write: the first one's document is dated outside the
  window the second one queries.
\<close>

theorem autoAbsent_twice_last_millisecond:
  "autoAbsent 86399999 (\<lambda>i. 86399999) \<lparr>users = [alice], ledger = []\<rparr>
     = \<lparr>users = [alice], ledger = [absent_row 86399999]\<rparr>
   \<and> autoAbsent 86399999 (\<lambda>i. 86399999) \<lparr>users = [alice], ledger = [absent_row 86399999]\<rparr>
     = \<lparr>users = [alice], ledger = [absent_row 86399999, absent_row 86399999]\<rparr>"
  by code_simp

subsection \<open>Lookups and the day's documents\<close>

lemma first_from_None: "first_from k P xs = None \<longleftrightarrow> filter P xs = []"
  by (induction xs arbitrary: k) auto

lemma first_from_Some:
  "first_from k P xs = Some (i, x) \<Longrightarrow> k \<le> i \<and> i - k < length xs \<and> xs ! (i - k) = x \<and> P x"
proof (induction xs arbitrary: k)
  case Nil
  then show ?case by simp
next
  case (Cons y ys)
  show ?case
  proof (cases "P y")
    case True
    with Cons.prems show ?thesis by auto
  next
    case False
    with Cons.prems have "first_from (Suc k) P ys = Some (i, x)" by simp
    from Cons.IH [OF this] show ?thesis
      by (auto simp: Suc_diff_le)
  qed
qed

lemma first_from_update:
  "first_from k P xs = Some (i, x) \<Longrightarrow> (\<And>y. P (f y) = P y) \<Longrightarrow>
   first_from k P (xs[i - k := f x]) = Some (i, f x)"
proof (induction xs arbitrary: k)
  case Nil
  then show ?case by simp
next
  case (Cons y ys)
  show ?case
  proof (cases "P y")
    case True
    with Cons.prems show ?thesis by auto
  next
    case False
    with Cons.prems have a: "first_from (Suc k) P ys = Some (i, x)" by simp
    from first_from_Some [OF a] have "Suc k \<le> i" by simp
    then have "i - k = Suc (i - Suc k)" by simp
    with Cons.IH [OF a Cons.prems(2)] False show ?thesis
      by simp
  qed
qed

lemma findOne_None: "findOne P xs = None \<longleftrightarrow> filter P xs = []"
  by (simp add: findOne_def first_from_None)

lemma findOne_Some: "findOne P xs = Some (i, x) \<Longrightarrow> i < length xs \<and> xs ! i = x \<and> P x"
  using first_from_Some [of 0 P xs i x] by (simp add: findOne_def)

lemma findOne_update:
  "findOne P xs = Some (i, x) \<Longrightarrow> (\<And>y. P (f y) = P y) \<Longrightarrow> findOne P (xs[i := f x]) = Some (i, f x)"
  using first_from_update [of 0 P xs i x f] by (simp add: findOne_def)

lemma User_findOne_update:
  assumes "User_findOne cast us key = Inr (Some (i, u))"
  shows "User_findOne cast (us[i := u\<lparr>attendance := v\<rparr>]) key = Inr (Some (i, u\<lparr>attendance := v\<rparr>))"
proof (cases key)
  case (JString k)
  with assms have "findOne (\<lambda>u. userId u = k) us = Some (i, u)"
    by (simp add: User_findOne_def)
  from findOne_update [OF this, of "\<lambda>u. u\<lparr>attendance := v\<rparr>"] JString show ?thesis
    by (simp add: User_findOne_def)
next
  case JNull
  with assms obtain P where c: "cast key = Some P" and "findOne (\<lambda>u. P (userId u)) us = Some (i, u)"
    by (auto simp: User_findOne_def split: option.splits)
  from findOne_update [OF this(2), of "\<lambda>u. u\<lparr>attendance := v\<rparr>"] JNull c show ?thesis
    by (simp add: User_findOne_def)
next
  case (JBool b)
  with assms obtain P where c: "cast key = Some P" and "findOne (\<lambda>u. P (userId u)) us = Some (i, u)"
    by (auto simp: User_findOne_def split: option.splits)
  from findOne_update [OF this(2), of "\<lambda>u. u\<lparr>attendance := v\<rparr>"] JBool c show ?thesis
    by (simp add: User_findOne_def)
next
  case (JNumber n)
  with assms obtain P where c: "cast key = Some P" and "findOne (\<lambda>u. P (userId u)) us = Some (i, u)"
    by (auto simp: User_findOne_def split: option.splits)
  from findOne_update [OF this(2), of "\<lambda>u. u\<lparr>attendance := v\<rparr>"] JNumber c show ?thesis
    by (simp add: User_findOne_def)
next
  case (JArray xs)
  with assms obtain P where c: "cast key = Some P" and "findOne (\<lambda>u. P (userId u)) us = Some (i, u)"
    by (auto simp: User_findOne_def split: option.splits)
  from findOne_update [OF this(2), of "\<lambda>u. u\<lparr>attendance := v\<rparr>"] JArray c show ?thesis
    by (simp add: User_findOne_def)
next
  case (JObject ms)
  with assms obtain P where c: "cast key = Some P" and "findOne (\<lambda>u. P (userId u)) us = Some (i, u)"
    by (auto simp: User_findOne_def split: option.splits)
  from findOne_update [OF this(2), of "\<lambda>u. u\<lparr>attendance := v\<rparr>"] JObject c show ?thesis
    by (simp add: User_findOne_def)
qed

lemma Attendance_findOne_None:
  "Attendance_findOne led k (setHours t 0 0 0 0) (setHours (setHours t 0 0 0 0) 23 59 59 999) = None
     \<longleftrightarrow> day_rows led k t = []"
  by (simp add: Attendance_findOne_def findOne_None day_rows_def)

lemma setHours_same_day: "Day t2 = Day t1 \<Longrightarrow> setHours t2 h m s ms = setHours t1 h m s ms"
  by (simp add: setHours_def)

lemma day_rows_same_day: "Day t2 = Day t1 \<Longrightarrow> day_rows led k t2 = day_rows led k t1"
  by (simp add: day_rows_def setHours_same_day [of t2 t1])

lemma mark_present_result:
  "mark_present now stamp s i u =
     (Inr (name u, bus u),
      \<lparr>users = (users s)[i := u\<lparr>attendance := js ''Present''\<rparr>],
       ledger = (if day_rows (ledger s) (userId u) now = [] then ledger s @
          [\<lparr>a_userId = userId u, a_bus = bus u, a_date = stamp, a_status = js ''Present''\<rparr>]
          else ledger s)\<rparr>)"
  using Attendance_findOne_None [of "ledger s" "userId u" now]
  by (cases "Attendance_findOne (ledger s) (userId u) (setHours now 0 0 0 0)
        (setHours (setHours now 0 0 0 0) 23 59 59 999)")
    (auto simp: mark_present_def Let_def)


lemma scan_found:
  assumes "parse_scanned sd = Some parsed"
    and "get_prop parsed (js ''userId'') = Inr (Some key)"
    and "User_findOne cast us key = Inr (Some (i, u))"
    and "users s = us"
    and "truthy sd" "truthy ab" "truthy key"
    and "get_prop parsed (js ''bus'') = Inr pbus" "\<not> strict_neq pbus ab"
  shows "scan cast now stamp s (Some sd) (Some ab) = mark_present now stamp s i u"
  using assms by (simp add: scan_def)

text \<open>
  Claim C2, as stated, fails: after the sweep has written an \<^verbatim>\<open>Absent\<close> document for the
  day, two scans of the same identity leave that document as the only one of the day,
  and its status is not \<^verbatim>\<open>Present\<close>.
\<close>

theorem scan_twice_after_sweep:
  "scan no_cast 5 6 \<lparr>users = [alice], ledger = [absent_row 3]\<rparr>
       (Some (JString alice_qr)) (Some (JString (js ''B1'')))
     = (Inr (js ''Alice'', js ''B1''),
        \<lparr>users = [alice\<lparr>attendance := js ''Present''\<rparr>], ledger = [absent_row 3]\<rparr>)
   \<and> scan no_cast 7 8 \<lparr>users = [alice\<lparr>attendance := js ''Present''\<rparr>], ledger = [absent_row 3]\<rparr>
       (Some (JString alice_qr)) (Some (JString (js ''B1'')))
     = (Inr (js ''Alice'', js ''B1''),
        \<lparr>users = [alice\<lparr>attendance := js ''Present''\<rparr>], ledger = [absent_row 3]\<rparr>)
   \<and> day_rows [absent_row 3] (js ''U1'') 5 = [absent_row 3]
   \<and> a_status (absent_row 3) = js ''Absent''
   \<and> js ''Absent'' \<noteq> js ''Present''"
  by code_simp

text \<open>
  Claim C2, amended. Let a scan at time \<open>t1\<close> succeed for an identity. If the ledger
  already holds a document of that identity in the day's query window, the scan leaves
  the ledger as it is, and so does a second scan at any time \<open>t2\<close> of the same day.
  If it holds none, the scan appends one \<^verbatim>\<open>Present\<close> document; provided that document is
  dated within the day's query window, a second scan on the same day changes nothing,
  and the day's documents of the identity are exactly that one.
\<close>

theorem scan_twice_same_day:
  assumes dec: "parse_scanned sd = Some parsed"
      "get_prop parsed (js ''userId'') = Inr (Some key)"
      "User_findOne cast (users s) key = Inr (Some (i, u))"
    and ok: "scan cast t1 st1 s (Some sd) (Some ab) = (Inr r, s1)"
    and day: "Day t2 = Day t1"
  shows "(day_rows (ledger s) (userId u) t1 \<noteq> [] \<longrightarrow>
            ledger s1 = ledger s \<and> scan cast t2 st2 s1 (Some sd) (Some ab) = (Inr r, s1))
       \<and> (day_rows (ledger s) (userId u) t1 = [] \<longrightarrow>
            ledger s1 = ledger s @
              [\<lparr>a_userId = userId u, a_bus = bus u, a_date = st1, a_status = js ''Present''\<rparr>]
          \<and> (setHours t1 0 0 0 0 \<le> st1 \<and> st1 < setHours (setHours t1 0 0 0 0) 23 59 59 999 \<longrightarrow>
               scan cast t2 st2 s1 (Some sd) (Some ab) = (Inr r, s1)
             \<and> day_rows (ledger s1) (userId u) t1 =
                 [\<lparr>a_userId = userId u, a_bus = bus u, a_date = st1, a_status = js ''Present''\<rparr>]))"
proof -
  let ?new = "\<lparr>a_userId = userId u, a_bus = bus u, a_date = st1, a_status = js ''Present''\<rparr>"
  let ?u' = "u\<lparr>attendance := js ''Present''\<rparr>"
  from ok obtain sdv abv parsed' key' i' u' pbus where
    h: "Some sd = Some sdv" "Some ab = Some abv" "truthy sdv" "truthy abv"
      "parse_scanned sdv = Some parsed'"
      "get_prop parsed' (js ''userId'') = Inr (Some key')" "truthy key'"
      "User_findOne cast (users s) key' = Inr (Some (i', u'))"
      "get_prop parsed' (js ''bus'') = Inr pbus" "\<not> strict_neq pbus abv"
      "mark_present t1 st1 s i' u' = (Inr r, s1)"
    by (rule scan_success_cases)
  with dec have eq: "sdv = sd" "abv = ab" "parsed' = parsed" "key' = key" "i' = i" "u' = u"
    by auto
  from h(11) eq have r: "r = (name u, bus u)"
    and s1: "s1 = \<lparr>users = (users s)[i := ?u'],
       ledger = (if day_rows (ledger s) (userId u) t1 = [] then ledger s @ [?new] else ledger s)\<rparr>"
    by (simp_all add: mark_present_result)
  have us1: "User_findOne cast (users s1) key = Inr (Some (i, ?u'))"
    using User_findOne_update [OF dec(3)] s1 by simp
  have again: "scan cast t2 st2 s1 (Some sd) (Some ab) = mark_present t2 st2 s1 i ?u'"
    using scan_found [OF dec(1) dec(2) us1 refl] h(3,4,7,9,10) eq by simp
  have upd: "(users s1)[i := ?u'\<lparr>attendance := js ''Present''\<rparr>] = users s1"
    using s1 by simp
  have noop: "day_rows (ledger s1) (userId u) t1 \<noteq> [] \<Longrightarrow>
      scan cast t2 st2 s1 (Some sd) (Some ab) = (Inr r, s1)"
    using again upd r day_rows_same_day [OF day, of "ledger s1" "userId u"]
    by (simp add: mark_present_result)
  have A: "day_rows (ledger s) (userId u) t1 \<noteq> [] \<Longrightarrow>
      ledger s1 = ledger s \<and> scan cast t2 st2 s1 (Some sd) (Some ab) = (Inr r, s1)"
  proof -
    assume ne: "day_rows (ledger s) (userId u) t1 \<noteq> []"
    with s1 have "ledger s1 = ledger s" by simp
    with ne noop show ?thesis by simp
  qed
  have B1: "day_rows (ledger s) (userId u) t1 = [] \<Longrightarrow> ledger s1 = ledger s @ [?new]"
    using s1 by simp
  have B2: "day_rows (ledger s) (userId u) t1 = [] \<Longrightarrow>
      setHours t1 0 0 0 0 \<le> st1 \<and> st1 < setHours (setHours t1 0 0 0 0) 23 59 59 999 \<Longrightarrow>
      scan cast t2 st2 s1 (Some sd) (Some ab) = (Inr r, s1)
      \<and> day_rows (ledger s1) (userId u) t1 = [?new]"
  proof -
    assume e: "day_rows (ledger s) (userId u) t1 = []"
      and w: "setHours t1 0 0 0 0 \<le> st1 \<and> st1 < setHours (setHours t1 0 0 0 0) 23 59 59 999"
    from e s1 have "ledger s1 = ledger s @ [?new]" by simp
    with e w have rows: "day_rows (ledger s1) (userId u) t1 = [?new]"
      by (simp add: day_rows_def)
    with noop show ?thesis by simp
  qed
  from A B1 B2 show ?thesis by blast
qed

lemma scan_alice_first:
  "scan no_cast 5 6 \<lparr>users = [alice], ledger = []\<rparr> (Some (JString alice_qr)) (Some (JString (js ''B1'')))
     = (Inr (js ''Alice'', js ''B1''),
        \<lparr>users = [alice\<lparr>attendance := js ''Present''\<rparr>], ledger = [present_row 6]\<rparr>)"
  by code_simp

theorem scan_twice_same_day_witness:
  "scan no_cast 5 6 \<lparr>users = [alice], ledger = []\<rparr> (Some (JString alice_qr)) (Some (JString (js ''B1'')))
     = (Inr (js ''Alice'', js ''B1''),
        \<lparr>users = [alice\<lparr>attendance := js ''Present''\<rparr>], ledger = [present_row 6]\<rparr>)
   \<and> Day 7 = Day 5
   \<and> day_rows [] (js ''U1'') 5 = []
   \<and> setHours 5 0 0 0 0 \<le> 6 \<and> 6 < setHours (setHours 5 0 0 0 0) 23 59 59 999
   \<and> scan no_cast 7 8 \<lparr>users = [alice\<lparr>attendance := js ''Present''\<rparr>], ledger = [present_row 6]\<rparr>
        (Some (JString alice_qr)) (Some (JString (js ''B1'')))
     = (Inr (js ''Alice'', js ''B1''),
        \<lparr>users = [alice\<lparr>attendance := js ''Present''\<rparr>], ledger = [present_row 6]\<rparr>)
   \<and> day_rows [present_row 6] (js ''U1'') 5 = [present_row 6]"
proof -
  have a: "parse_scanned (JString alice_qr) = Some alice_payload"
    by code_simp
  have b: "get_prop alice_payload (js ''userId'') = Inr (Some (JString (js ''U1'')))"
    by code_simp
  have c: "User_findOne no_cast (users \<lparr>users = [alice], ledger = []\<rparr>) (JString (js ''U1''))
      = Inr (Some (0, alice))"
    by code_simp
  have d: "Day 7 = Day 5"
    by code_simp
  have e: "day_rows [] (js ''U1'') 5 = []"
    by (simp add: day_rows_def)
  have w: "setHours 5 0 0 0 0 \<le> 6 \<and> 6 < setHours (setHours 5 0 0 0 0) 23 59 59 999"
    by code_simp
  have f: "userId alice = js ''U1''" "bus alice = js ''B1''"
    by (simp_all add: alice_def)
  from scan_twice_same_day [OF a b c scan_alice_first d, of 8] e w f
  have "scan no_cast 7 8 \<lparr>users = [alice\<lparr>attendance := js ''Present''\<rparr>], ledger = [present_row 6]\<rparr>
        (Some (JString alice_qr)) (Some (JString (js ''B1'')))
     = (Inr (js ''Alice'', js ''B1''),
        \<lparr>users = [alice\<lparr>attendance := js ''Present''\<rparr>], ledger = [present_row 6]\<rparr>)
   \<and> day_rows [present_row 6] (js ''U1'') 5 = [present_row 6]"
    by (simp add: present_row_def)
  with scan_alice_first d e w show ?thesis by simp
qed

subsection \<open>Calendar arithmetic\<close>

text \<open>
  \<open>YearFromDay\<close> computes what ECMAScript specifies: the year whose days include the
  given day. From it, the day of the month of each day of a month follows.
\<close>

lemma int_div_succ:
  fixes a n :: int
  assumes "1 < n"
  shows "(a + 1) div n = a div n + (if a mod n = n - 1 then 1 else 0)"
proof -
  have m: "0 \<le> a mod n" "a mod n < n"
    using assms by simp_all
  have d: "(1::int) div n = 0" "(1::int) mod n = 1"
    using assms by simp_all
  have "(a + 1) div n = a div n + 1 div n + (a mod n + 1 mod n) div n"
    by (rule div_add1_eq)
  with d have e: "(a + 1) div n = a div n + (a mod n + 1) div n"
    by simp
  show ?thesis
  proof (cases "a mod n = n - 1")
    case True
    then have "(a mod n + 1) div n = 1" using assms by simp
    with e True show ?thesis by simp
  next
    case False
    with m have "a mod n + 1 < n" by simp
    with m have "(a mod n + 1) div n = 0" by simp
    with e False show ?thesis by simp
  qed
qed

lemma int_mod_shift:
  fixes y c n :: int
  assumes "1 < n" "c mod n = 1"
  shows "(y - c) mod n = n - 1 \<longleftrightarrow> y mod n = 0"
proof -
  have m: "0 \<le> y mod n" "y mod n < n"
    using assms by simp_all
  have e: "(y - c) mod n = (y mod n - 1) mod n"
    using mod_diff_eq [of y n c] assms(2) by simp
  show ?thesis
  proof (cases "y mod n = 0")
    case True
    have "(- 1) mod n = n - 1"
      using assms(1) by (simp add: zmod_minus1)
    with e True show ?thesis by simp
  next
    case False
    with m have "0 \<le> y mod n - 1" "y mod n - 1 < n - 1" by simp_all
    then have "(y mod n - 1) mod n = y mod n - 1" "y mod n - 1 \<noteq> n - 1" by simp_all
    with e False show ?thesis by simp
  qed
qed

lemma mod100_4: "(y::int) mod 100 = 0 \<Longrightarrow> y mod 4 = 0"
  using mod_mod_cancel [of 4 100 y] by simp

lemma mod400_100: "(y::int) mod 400 = 0 \<Longrightarrow> y mod 100 = 0"
  using mod_mod_cancel [of 100 400 y] by simp

lemma DayFromYear_Suc: "DayFromYear (y + 1) = DayFromYear y + DaysInYear y"
proof -
  have a: "(y + 1 - 1969) div 4 = (y - 1969) div 4 + (if y mod 4 = 0 then 1 else 0)"
    using int_div_succ [of 4 "y - 1969"] int_mod_shift [of 4 1969 y] by (simp add: algebra_simps)
  have b: "(y + 1 - 1901) div 100 = (y - 1901) div 100 + (if y mod 100 = 0 then 1 else 0)"
    using int_div_succ [of 100 "y - 1901"] int_mod_shift [of 100 1901 y] by (simp add: algebra_simps)
  have c: "(y + 1 - 1601) div 400 = (y - 1601) div 400 + (if y mod 400 = 0 then 1 else 0)"
    using int_div_succ [of 400 "y - 1601"] int_mod_shift [of 400 1601 y] by (simp add: algebra_simps)
  show ?thesis
    unfolding DayFromYear_def DaysInYear_def a b c
    using mod100_4 [of y] mod400_100 [of y] by auto
qed

lemma DaysInYear_bounds: "365 \<le> DaysInYear y" "DaysInYear y \<le> 366"
  by (simp_all add: DaysInYear_def)

lemma DayFromYear_bounds:
  "400 * DayFromYear y \<le> 146097 * (y - 1970) + 589"
  "146097 * (y - 1970) - 506 \<le> 400 * DayFromYear y"
proof -
  define q4 r4 q100 r100 q400 r400 where
    "q4 = (y - 1969) div 4" and "r4 = (y - 1969) mod 4" and
    "q100 = (y - 1901) div 100" and "r100 = (y - 1901) mod 100" and
    "q400 = (y - 1601) div 400" and "r400 = (y - 1601) mod 400"
  have e: "y - 1969 = q4 * 4 + r4" "y - 1901 = q100 * 100 + r100" "y - 1601 = q400 * 400 + r400"
    by (simp_all add: q4_def r4_def q100_def r100_def q400_def r400_def)
  have b: "0 \<le> r4" "r4 < 4" "0 \<le> r100" "r100 < 100" "0 \<le> r400" "r400 < 400"
    by (simp_all add: r4_def r100_def r400_def)
  have d: "DayFromYear y = 365 * (y - 1970) + q4 - q100 + q400"
    by (simp add: DayFromYear_def q4_def q100_def q400_def)
  have u4: "400 * q4 \<le> 100 * (y - 1969)" and l4: "100 * (y - 1969) - 300 \<le> 400 * q4"
    using e(1) b(1,2) by simp_all
  have u100: "400 * q100 \<le> 4 * (y - 1901)" and l100: "4 * (y - 1901) - 396 \<le> 400 * q100"
    using e(2) b(3,4) by simp_all
  have u400: "400 * q400 \<le> y - 1601" and l400: "y - 1601 - 399 \<le> 400 * q400"
    using e(3) b(5,6) by simp_all
  from u4 l100 u400 show "400 * DayFromYear y \<le> 146097 * (y - 1970) + 589"
    unfolding d by simp
  from l4 u100 l400 show "146097 * (y - 1970) - 506 \<le> 400 * DayFromYear y"
    unfolding d by simp
qed

lemma DayFromYear_mono: "y \<le> z \<Longrightarrow> DayFromYear y \<le> DayFromYear z"
proof -
  have "DayFromYear y \<le> DayFromYear (y + int n)" for n
  proof (induction n)
    case 0
    then show ?case by simp
  next
    case (Suc n)
    have "DayFromYear (y + int (Suc n)) = DayFromYear (y + int n) + DaysInYear (y + int n)"
      using DayFromYear_Suc [of "y + int n"] by (simp add: algebra_simps)
    with Suc DaysInYear_bounds(1) [of "y + int n"] show ?case by linarith
  qed
  from this [of "nat (z - y)"] show "y \<le> z \<Longrightarrow> DayFromYear y \<le> DayFromYear z"
    by simp
qed

lemma YearFromDay_in_year:
  assumes "0 \<le> k" "k < DaysInYear y"
  shows "YearFromDay (DayFromYear y + k) = y"
proof -
  define d where "d = DayFromYear y + k"
  define e where "e = (400 * d) div 146097"
  have lo: "DayFromYear y \<le> d" and hi: "d < DayFromYear (y + 1)"
    using assms by (simp_all add: d_def DayFromYear_Suc)
  have em: "400 * d = e * 146097 + (400 * d) mod 146097"
    by (simp add: e_def)
  have mb: "0 \<le> (400 * d) mod 146097" "(400 * d) mod 146097 < 146097"
    by simp_all
  define m where "m = (400 * d) mod 146097"
  from em mb have em': "400 * d = e * 146097 + m" "0 \<le> m" "m < 146097"
    by (simp_all add: m_def)
  have "146097 * (y - 1970) - 506 \<le> 400 * d"
    using DayFromYear_bounds(2) [of y] lo by simp
  with em' have "146097 * (y - 1971) < 146097 * (e + 1)"
    by simp
  then have e_lo: "y - 1971 \<le> e"
    by simp
  have "400 * d < 146097 * (y + 1 - 1970) + 589"
    using DayFromYear_bounds(1) [of "y + 1"] hi by simp
  with em' have "146097 * e < 146097 * (y - 1968)"
    by simp
  then have e_hi: "e \<le> y - 1969"
    by simp
  then consider "e = y - 1971" | "e = y - 1970" | "e = y - 1969"
    using e_lo by linarith
  then have "YearFromDay d = y"
  proof cases
    case 1
    have g: "YearFromDay d =
        (if d < DayFromYear (y - 1) then y - 2 else if DayFromYear y \<le> d then y else y - 1)"
      by (simp add: YearFromDay_def Let_def e_def [symmetric] 1)
    have "DayFromYear (y - 1) \<le> d"
      using DayFromYear_mono [of "y - 1" y] lo by simp
    with lo show ?thesis
      unfolding g by simp
  next
    case 2
    have g: "YearFromDay d =
        (if d < DayFromYear y then y - 1 else if DayFromYear (y + 1) \<le> d then y + 1 else y)"
      by (simp add: YearFromDay_def Let_def e_def [symmetric] 2)
    from lo hi show ?thesis
      unfolding g by simp
  next
    case 3
    have g: "YearFromDay d =
        (if d < DayFromYear (1 + y) then y else if DayFromYear (2 + y) \<le> d then 2 + y else 1 + y)"
      by (simp add: YearFromDay_def Let_def e_def [symmetric] 3)
    have "1 + y = y + 1"
      by simp
    with hi have "d < DayFromYear (1 + y)"
      by (simp only:)
    then show ?thesis
      unfolding g by simp
  qed
  then show ?thesis
    by (simp add: d_def)
qed

lemma DaysInYear_leap: "DaysInYear y = (if leap_year y then 366 else 365)"
proof -
  define a b c where "a = (y mod 4 = 0)" and "b = (y mod 100 = 0)" and "c = (y mod 400 = 0)"
  have "DaysInYear y = (if \<not> a then 365 else if \<not> b then 366 else if \<not> c then 365 else 366)"
    unfolding DaysInYear_def a_def b_def c_def ..
  moreover have "leap_year y = (a \<and> (\<not> b \<or> c))"
    unfolding leap_year_def a_def b_def c_def ..
  ultimately show ?thesis
    by (cases a; cases b; cases c) simp_all
qed

lemma civil_of_day_in_year:
  assumes "0 \<le> w" "w < DaysInYear y"
  shows "YearFromDay (DayFromYear y + w) = y"
    and "DayWithinYear (DayFromYear y + w) = w"
    and "InLeapYear (DayFromYear y + w) = (if leap_year y then 1 else 0)"
  using YearFromDay_in_year [OF assms]
  by (simp_all add: DayWithinYear_def InLeapYear_def DaysInYear_leap)


lemma month_cases:
  fixes m :: int
  assumes "1 \<le> m" "m \<le> 12"
  obtains "m = 1" | "m = 2" | "m = 3" | "m = 4" | "m = 5" | "m = 6"
    | "m = 7" | "m = 8" | "m = 9" | "m = 10" | "m = 11" | "m = 12"
proof -
  from assms have "m = 1 \<or> m = 2 \<or> m = 3 \<or> m = 4 \<or> m = 5 \<or> m = 6
      \<or> m = 7 \<or> m = 8 \<or> m = 9 \<or> m = 10 \<or> m = 11 \<or> m = 12"
    by arith
  with that show thesis
    by blast
qed

lemma MakeDay_first:
  assumes "1 \<le> m" "m \<le> 12"
  shows "MakeDay y (m - 1) 1 = DayFromYear y + month_offset (m - 1) (if leap_year y then 1 else 0)"
  using assms(1,2)
  by (cases m rule: month_cases) (simp_all add: MakeDay_def Let_def DaysInYear_leap)

lemma MakeDay_last:
  assumes "1 \<le> m" "m \<le> 12"
  shows "MakeDay y m 0 = MakeDay y (m - 1) 1 + calendar_days_in_month y m - 1"
  using assms(1,2)
  by (cases m rule: month_cases)
    (simp_all add: MakeDay_def Let_def DaysInYear_leap DayFromYear_Suc month_offset_def
      calendar_days_in_month_def)

lemma civil_of_month_day:
  assumes "1 \<le> m" "m \<le> 12" "1 \<le> dt" "dt \<le> calendar_days_in_month y m"
  shows "YearFromDay (MakeDay y (m - 1) 1 + dt - 1) = y"
    and "MonthFromDay (MakeDay y (m - 1) 1 + dt - 1) = m - 1"
    and "DateFromDay (MakeDay y (m - 1) 1 + dt - 1) = dt"
proof -
  define l :: int where "l = (if leap_year y then 1 else 0)"
  define w where "w = month_offset (m - 1) l + dt - 1"
  have l: "l = 0 \<or> l = 1"
    by (simp add: l_def)
  have diy: "DaysInYear y = 365 + l"
    by (simp add: DaysInYear_leap l_def)
  have cdm: "calendar_days_in_month y m =
      (if m = 2 then 28 + l else if m = 4 \<or> m = 6 \<or> m = 9 \<or> m = 11 then 30 else 31)"
    by (simp add: calendar_days_in_month_def l_def)
  have d: "MakeDay y (m - 1) 1 + dt - 1 = DayFromYear y + w"
    using MakeDay_first [OF assms(1,2), of y] by (simp add: w_def l_def)
  have w: "0 \<le> w" "w < DaysInYear y"
    using assms l unfolding w_def diy cdm
    by (cases m rule: month_cases; auto simp: month_offset_def)+
  from civil_of_day_in_year [OF w] have c: "YearFromDay (DayFromYear y + w) = y"
    "DayWithinYear (DayFromYear y + w) = w" "InLeapYear (DayFromYear y + w) = l"
    by (simp_all add: l_def)
  show "YearFromDay (MakeDay y (m - 1) 1 + dt - 1) = y"
    unfolding d by (rule c(1))
  have mo: "MonthFromDay (DayFromYear y + w) = m - 1"
    unfolding MonthFromDay_def c Let_def
    using assms l unfolding w_def cdm
    by (cases m rule: month_cases; auto simp: month_offset_def)
  then show "MonthFromDay (MakeDay y (m - 1) 1 + dt - 1) = m - 1"
    unfolding d .
  show "DateFromDay (MakeDay y (m - 1) 1 + dt - 1) = dt"
    unfolding d DateFromDay_def mo c Let_def
    using assms l unfolding w_def cdm
    by (cases m rule: month_cases; auto simp: month_offset_def)
qed


lemma calendar_days_in_month_bounds:
  "28 \<le> calendar_days_in_month y m" "calendar_days_in_month y m \<le> 31"
  by (simp_all add: calendar_days_in_month_def)

lemma month_offset_bounds:
  assumes "1 \<le> m" "m \<le> 12" "l = 0 \<or> l = 1"
  shows "0 \<le> month_offset (m - 1) l" "month_offset (m - 1) l \<le> 335"
  using assms by (cases m rule: month_cases; auto simp: month_offset_def)+

lemma MakeDay_first_bounds:
  assumes "1 \<le> m" "m \<le> 12" "- 271820 \<le> y" "y \<le> 275759"
  shows "- 99999744 \<le> MakeDay y (m - 1) 1" "MakeDay y (m - 1) 1 \<le> 99999714"
proof -
  have a: "DayFromYear (- 271820) = - 99999744" "DayFromYear 275759 = 99999379"
    by (simp_all add: DayFromYear_def)
  have b: "DayFromYear (- 271820) \<le> DayFromYear y" "DayFromYear y \<le> DayFromYear 275759"
    using assms(3,4) by (auto intro: DayFromYear_mono)
  have c: "0 \<le> month_offset (m - 1) (if leap_year y then 1 else 0)"
    "month_offset (m - 1) (if leap_year y then 1 else 0) \<le> 335"
    using month_offset_bounds [OF assms(1,2), of "if leap_year y then 1 else 0"] by simp_all
  from a b c show "- 99999744 \<le> MakeDay y (m - 1) 1" "MakeDay y (m - 1) 1 \<le> 99999714"
    unfolding MakeDay_first [OF assms(1,2)] by linarith+
qed

lemma Day_MakeDate: "0 \<le> t \<Longrightarrow> t < msPerDay \<Longrightarrow> Day (MakeDate d t) = d"
  by (simp add: Day_def MakeDate_def msPerDay_def div_pos_pos_trivial)

lemma Date_new_in_range:
  assumes "year < 0 \<or> 99 < year"
    and "- 99999744 \<le> MakeDay year mi dt" "MakeDay year mi dt \<le> 99999745"
    and "0 \<le> MakeTime h mn sc ms" "MakeTime h mn sc ms < msPerDay"
  shows "Date_new year mi dt h mn sc ms = Some (MakeDay year mi dt * msPerDay + MakeTime h mn sc ms)"
proof -
  have "(0 \<le> year \<and> year \<le> 99) = False"
    using assms(1) by auto
  moreover have "\<bar>MakeDay year mi dt * msPerDay + MakeTime h mn sc ms\<bar> \<le> 8640000000000000"
    using assms(2-5) unfolding msPerDay_def by linarith
  ultimately show ?thesis
    unfolding Date_new_def TimeClip_def MakeDate_def Let_def by (simp only: if_False if_True)
qed

text \<open>
  Claim C3, as stated for every year, fails: the Date constructor reads a year from 0 to
  99 as 1900 plus that year. For February of year 0 the route reports the 28 days of
  February 1900 (the calendar rule gives 29 for year 0) and counts the documents of
  February 1900.
\<close>

theorem monthlySummary_two_digit_year:
  "monthlySummary \<lparr>users = [alice], ledger = [present_row (- 2205057600000)]\<rparr> (js ''U1'') 2 0
     = (Inr \<lparr>s_userId = js ''U1'', s_month = 2, s_year = 0, totalDays = Some 28,
              presentDays = 1, absentDays = Some 27,
              details = [present_row (- 2205057600000)]\<rparr>,
        \<lparr>users = [alice], ledger = [present_row (- 2205057600000)]\<rparr>)
   \<and> calendar_days_in_month 0 2 = 29
   \<and> YearFromDay (Day (- 2205057600000)) = 1900"
  by code_simp

text \<open>
  Claim C3, amended. For a month from 1 to 12 and a year that the Date constructor takes
  as it is (not 0 to 99) and that lies within the range of time values, the summary
  reports: as \<open>totalDays\<close> the number of calendar days of the month by the leap-year
  rule; as details the ledger documents of the identity dated from 00:00:00 of the
  month's first day to 23:59:59 of its last day; as \<open>presentDays\<close> the number of
  \<^verbatim>\<open>Present\<close> documents among them; as \<open>absentDays\<close> the difference. For an identity
  that the store does not know, there are no documents and \<open>absentDays\<close> equals
  \<open>totalDays\<close>.
\<close>

theorem monthlySummary_counts:
  assumes "1 \<le> month" "month \<le> 12"
    and "- 271820 \<le> year" "year \<le> 275759" "year < 0 \<or> 99 < year"
  shows "\<exists>r start.
      monthlySummary s k month year = (Inr r, s)
    \<and> totalDays r = Some (calendar_days_in_month year month)
    \<and> start mod msPerDay = 0
    \<and> YearFromDay (Day start) = year \<and> MonthFromDay (Day start) = month - 1
    \<and> DateFromDay (Day start) = 1
    \<and> details r =
         filter (\<lambda>e. a_userId e = k \<and> start \<le> a_date e
                   \<and> a_date e \<le> start + calendar_days_in_month year month * msPerDay - 1000) (ledger s)
    \<and> presentDays r = int (length (filter (\<lambda>e. a_status e = js ''Present'') (details r)))
    \<and> absentDays r = Some (calendar_days_in_month year month - presentDays r)
    \<and> (ledger_of_known s \<and> \<not> list_ex (\<lambda>u. userId u = k) (users s) \<longrightarrow>
          details r = [] \<and> presentDays r = 0 \<and> absentDays r = totalDays r)"
proof -
  define n where "n = calendar_days_in_month year month"
  define d1 where "d1 = MakeDay year (month - 1) 1"
  define start where "start = d1 * msPerDay"
  define recs where "recs =
    filter (\<lambda>e. a_userId e = k \<and> start \<le> a_date e \<and> a_date e \<le> start + n * msPerDay - 1000) (ledger s)"
  define present where "present = int (length (filter (\<lambda>e. a_status e = js ''Present'') recs))"
  have nb: "28 \<le> n" "n \<le> 31"
    by (simp_all add: n_def calendar_days_in_month_bounds)
  have d1b: "- 99999744 \<le> d1" "d1 \<le> 99999714"
    using MakeDay_first_bounds [OF assms(1-4)] by (simp_all add: d1_def)
  have last: "MakeDay year month 0 = d1 + n - 1"
    using MakeDay_last [OF assms(1,2)] by (simp add: d1_def n_def)
  have mt: "MakeTime 0 0 0 0 = 0" "MakeTime 23 59 59 0 = 86399000"
    by (simp_all add: MakeTime_def)
  have D1: "Date_new year (month - 1) 1 0 0 0 0 = Some start"
    using Date_new_in_range [OF assms(5), of "month - 1" 1 0 0 0 0] d1b
    by (simp add: mt d1_def [symmetric] start_def msPerDay_def)
  have D2: "Date_new year month 0 23 59 59 0 = Some (start + n * msPerDay - 1000)"
    using Date_new_in_range [OF assms(5), of month 0 23 59 59 0] d1b nb
    by (simp add: mt last start_def msPerDay_def algebra_simps)
  have D3: "Date_new year month 0 0 0 0 0 = Some ((d1 + n - 1) * msPerDay)"
    using Date_new_in_range [OF assms(5), of month 0 0 0 0 0] d1b nb
    by (simp add: mt last msPerDay_def)
  have day3: "Day ((d1 + n - 1) * msPerDay) = d1 + n - 1" and day1: "Day start = d1"
    by (simp_all add: Day_def msPerDay_def start_def)
  have civ_last: "DateFromDay (d1 + n - 1) = n"
    using civil_of_month_day(3) [OF assms(1,2), of n year] nb by (simp add: d1_def n_def)
  have civ_first: "YearFromDay d1 = year" "MonthFromDay d1 = month - 1" "DateFromDay d1 = 1"
    using civil_of_month_day [OF assms(1,2), of 1 year] nb by (simp_all add: d1_def n_def)
  define r where "r = \<lparr>s_userId = k, s_month = month, s_year = year, totalDays = Some n,
      presentDays = present, absentDays = Some (n - present), details = recs\<rparr>"
  have res: "monthlySummary s k month year = (Inr r, s)"
    by (simp add: monthlySummary_def D1 D2 D3 Let_def getDate_def day3 civ_last r_def recs_def
        present_def)
  have unknown: "recs = []"
    if "ledger_of_known s" "\<not> list_ex (\<lambda>u. userId u = k) (users s)"
    using that by (auto simp: recs_def ledger_of_known_def list_all_iff list_ex_iff filter_empty_conv)
  have "monthlySummary s k month year = (Inr r, s)
    \<and> totalDays r = Some n
    \<and> start mod msPerDay = 0
    \<and> YearFromDay (Day start) = year \<and> MonthFromDay (Day start) = month - 1
    \<and> DateFromDay (Day start) = 1
    \<and> details r = recs
    \<and> presentDays r = int (length (filter (\<lambda>e. a_status e = js ''Present'') (details r)))
    \<and> absentDays r = Some (n - presentDays r)
    \<and> (ledger_of_known s \<and> \<not> list_ex (\<lambda>u. userId u = k) (users s) \<longrightarrow>
          details r = [] \<and> presentDays r = 0 \<and> absentDays r = totalDays r)"
    using res unknown by (simp add: day1 civ_first) (simp add: r_def present_def start_def)
  from this [unfolded recs_def n_def] show ?thesis
    by - (rule exI, rule exI, assumption)
qed

lemma calendar_february: "calendar_days_in_month 2024 2 = 29" "calendar_days_in_month 2023 2 = 28"
  by (simp_all add: calendar_days_in_month_def leap_year_def)

theorem monthlySummary_counts_witness:
  "(\<exists>r. monthlySummary \<lparr>users = [alice], ledger = [present_row 1707998400000]\<rparr> (js ''U1'') 2 2024
          = (Inr r, \<lparr>users = [alice], ledger = [present_row 1707998400000]\<rparr>)
        \<and> totalDays r = Some 29 \<and> presentDays r = 1 \<and> absentDays r = Some 28)
   \<and> (\<exists>r. monthlySummary \<lparr>users = [alice], ledger = [present_row 1707998400000]\<rparr> (js ''U1'') 2 2023
          = (Inr r, \<lparr>users = [alice], ledger = [present_row 1707998400000]\<rparr>)
        \<and> totalDays r = Some 28 \<and> presentDays r = 0 \<and> absentDays r = Some 28)
   \<and> (\<exists>r. monthlySummary \<lparr>users = [alice], ledger = [present_row 1707998400000]\<rparr> (js ''U9'') 2 2024
          = (Inr r, \<lparr>users = [alice], ledger = [present_row 1707998400000]\<rparr>)
        \<and> details r = [] \<and> absentDays r = Some 29)"
proof -
  let ?s = "\<lparr>users = [alice], ledger = [present_row 1707998400000]\<rparr>"
  have k: "ledger_of_known ?s" "\<not> list_ex (\<lambda>u. userId u = js ''U9'') (users ?s)"
    by code_simp+
  have e1: "monthlySummary ?s (js ''U1'') 2 2024 =
      (Inr \<lparr>s_userId = js ''U1'', s_month = 2, s_year = 2024, totalDays = Some 29,
             presentDays = 1, absentDays = Some 28, details = [present_row 1707998400000]\<rparr>, ?s)"
    by code_simp
  have e2: "monthlySummary ?s (js ''U1'') 2 2023 =
      (Inr \<lparr>s_userId = js ''U1'', s_month = 2, s_year = 2023, totalDays = Some 28,
             presentDays = 0, absentDays = Some 28, details = []\<rparr>, ?s)"
    by code_simp
  from monthlySummary_counts [of 2 2024 ?s "js ''U1''"] e1
  have a: "\<exists>r. monthlySummary ?s (js ''U1'') 2 2024 = (Inr r, ?s)
        \<and> totalDays r = Some 29 \<and> presentDays r = 1 \<and> absentDays r = Some 28"
    by (simp add: calendar_february)
  from monthlySummary_counts [of 2 2023 ?s "js ''U1''"] e2
  have b: "\<exists>r. monthlySummary ?s (js ''U1'') 2 2023 = (Inr r, ?s)
        \<and> totalDays r = Some 28 \<and> presentDays r = 0 \<and> absentDays r = Some 28"
    by (simp add: calendar_february)
  from monthlySummary_counts [of 2 2024 ?s "js ''U9''"] k
  have c: "\<exists>r. monthlySummary ?s (js ''U9'') 2 2024 = (Inr r, ?s)
        \<and> details r = [] \<and> absentDays r = Some 29"
    by (auto simp: calendar_february)
  from a b c show ?thesis
    by (intro conjI)
qed

subsection \<open>The sweep within the query window\<close>

text \<open>
  The sweep only appends \<^verbatim>\<open>Absent\<close> documents, and never touches an identity or an
  existing document. When the documents it writes are dated within the window it
  queries, a second sweep on the same day writes nothing.
\<close>

lemma setHours_midnight: "setHours t 0 0 0 0 = Day t * msPerDay"
  by (simp add: setHours_def MakeDate_def MakeTime_def)

lemma setHours_day_end: "setHours (setHours t 0 0 0 0) 23 59 59 999 = Day t * msPerDay + 86399999"
  by (simp add: setHours_def MakeDate_def MakeTime_def Day_def msPerDay_def)

lemma day_rows_window:
  "day_rows led k t =
     filter (\<lambda>r. a_userId r = k \<and> Day t * msPerDay \<le> a_date r
                 \<and> a_date r < Day t * msPerDay + 86399999) led"
  by (simp only: day_rows_def setHours_day_end) (simp only: setHours_midnight)

lemma Attendance_findOne_None_set:
  "Attendance_findOne led k start end = None \<longleftrightarrow>
     (\<forall>r \<in> set led. \<not> (a_userId r = k \<and> start \<le> a_date r \<and> a_date r < end))"
  by (simp add: Attendance_findOne_def findOne_None filter_empty_conv)

lemma autoAbsent_loop_appends:
  "\<exists>new. autoAbsent_loop start end stamp i us led = led @ new
       \<and> list_all (\<lambda>r. a_status r = js ''Absent'') new"
proof (induction us arbitrary: i led)
  case Nil
  then show ?case by simp
next
  case (Cons u us)
  show ?case
  proof (cases "Attendance_findOne led (userId u) start end")
    case None
    let ?e = "\<lparr>a_userId = userId u, a_bus = bus u, a_date = stamp i, a_status = js ''Absent''\<rparr>"
    from Cons.IH [of "Suc i" "led @ [?e]"] obtain new where
      "autoAbsent_loop start end stamp (Suc i) us (led @ [?e]) = (led @ [?e]) @ new"
      "list_all (\<lambda>r. a_status r = js ''Absent'') new"
      by blast
    with None show ?thesis
      by (intro exI [of _ "?e # new"]) simp
  next
    case (Some a)
    with Cons.IH [of "Suc i" led] show ?thesis by simp
  qed
qed

lemma autoAbsent_loop_noop:
  assumes "\<And>u. u \<in> set us \<Longrightarrow> Attendance_findOne led (userId u) start end \<noteq> None"
  shows "autoAbsent_loop start end stamp i us led = led"
  using assms
proof (induction us arbitrary: i)
  case Nil
  then show ?case by simp
next
  case (Cons u us)
  from Cons.prems [of u] obtain a where "Attendance_findOne led (userId u) start end = Some a"
    by auto
  moreover have "autoAbsent_loop start end stamp (Suc i) us led = led"
    using Cons.prems by (intro Cons.IH) simp
  ultimately show ?case by simp
qed

lemma autoAbsent_loop_covers:
  assumes "\<And>j. start \<le> stamp j \<and> stamp j < end"
  shows "\<forall>u \<in> set us. Attendance_findOne (autoAbsent_loop start end stamp i us led) (userId u) start end \<noteq> None"
proof (induction us arbitrary: i led)
  case Nil
  then show ?case by simp
next
  case (Cons u us)
  define led' where "led' = (case Attendance_findOne led (userId u) start end of
          None \<Rightarrow> led @ [\<lparr>a_userId = userId u, a_bus = bus u, a_date = stamp i,
                    a_status = js ''Absent''\<rparr>]
        | Some _ \<Rightarrow> led)"
  have step: "autoAbsent_loop start end stamp i (u # us) led
      = autoAbsent_loop start end stamp (Suc i) us led'"
    by (simp add: led'_def)
  have here: "Attendance_findOne led' (userId u) start end \<noteq> None"
  proof (cases "Attendance_findOne led (userId u) start end")
    case None
    then have "led' = led @ [\<lparr>a_userId = userId u, a_bus = bus u, a_date = stamp i,
                    a_status = js ''Absent''\<rparr>]"
      by (simp add: led'_def)
    with assms [of i] show ?thesis
      by (simp add: Attendance_findOne_None_set)
  next
    case (Some a)
    then show ?thesis
      by (simp add: led'_def)
  qed
  obtain new where new: "autoAbsent_loop start end stamp (Suc i) us led' = led' @ new"
    using autoAbsent_loop_appends [where start = start and stamp = stamp and i = "Suc i"
        and us = us and led = led'] by blast
  from here have "Attendance_findOne (led' @ new) (userId u) start end \<noteq> None"
    by (auto simp: Attendance_findOne_None_set)
  with Cons.IH [of "Suc i" led'] show ?case
    unfolding step by (simp add: new)
qed

lemma autoAbsent_idempotent_in_window:
  assumes "Day t2 = Day t1"
    and "\<And>j. setHours t1 0 0 0 0 \<le> stamp1 j \<and> stamp1 j < setHours (setHours t1 0 0 0 0) 23 59 59 999"
  shows "autoAbsent t2 stamp2 (autoAbsent t1 stamp1 s) = autoAbsent t1 stamp1 s"
proof -
  let ?start = "setHours t1 0 0 0 0"
  let ?end = "setHours ?start 23 59 59 999"
  let ?us = "filter (\<lambda>u. role u = js ''user'') (users s)"
  let ?led = "autoAbsent_loop ?start ?end stamp1 0 ?us (ledger s)"
  have w: "setHours t2 0 0 0 0 = ?start"
    using assms(1) by (simp add: setHours_midnight)
  have "autoAbsent_loop ?start ?end stamp2 0 ?us ?led = ?led"
    using autoAbsent_loop_covers [OF assms(2), where us = ?us and i = 0 and led = "ledger s"]
    by (intro autoAbsent_loop_noop) simp
  then show ?thesis
    by (simp add: autoAbsent_def Let_def w)
qed

lemma autoAbsent_appends:
  "users (autoAbsent t stamp s) = users s
   \<and> (\<exists>new. ledger (autoAbsent t stamp s) = ledger s @ new
          \<and> list_all (\<lambda>r. a_status r = js ''Absent'') new)"
  using autoAbsent_loop_appends [where start = "setHours t 0 0 0 0"
      and stamp = stamp and i = 0 and us = "filter (\<lambda>u. role u = js ''user'') (users s)"
      and led = "ledger s"]
  by (simp add: autoAbsent_def Let_def)

subsection \<open>How a scanned payload can fail to decode\<close>

text \<open>
  For a request with both fields present: the scan answers \<open>MalformedPayload\<close> exactly
  when the text does not parse, \<open>MissingIdentityField\<close> exactly when the parsed value
  is not \<^verbatim>\<open>null\<close> and has no truthy \<^verbatim>\<open>userId\<close>, and fails in the outer handler when the
  parsed value is \<^verbatim>\<open>null\<close>. A failed scan leaves the store as it was.
\<close>

lemma get_prop_Inl: "get_prop p k = Inl e \<longleftrightarrow> p = JNull \<and> e = InternalError"
  by (cases p) auto

lemma User_findOne_Inl: "User_findOne cast us key = Inl e \<Longrightarrow> e = InternalError"
  by (auto simp: User_findOne_def split: json.splits option.splits)

lemma scan_failure_store: "scan cast now stamp s sd ab = (Inl e, s') \<Longrightarrow> s' = s"
  by (auto simp: scan_def mark_present_def Let_def
      split: option.splits sum.splits prod.splits if_splits)

lemma scan_malformed:
  assumes "truthy sd" "truthy ab"
  shows "fst (scan cast now stamp s (Some sd) (Some ab)) = Inl MalformedPayload
           \<longleftrightarrow> parse_scanned sd = None"
  using assms
  by (auto simp: scan_def mark_present_def Let_def get_prop_Inl
      split: option.splits sum.splits prod.splits if_splits dest: User_findOne_Inl)

lemma scan_missing_identity:
  assumes "truthy sd" "truthy ab"
  shows "fst (scan cast now stamp s (Some sd) (Some ab)) = Inl MissingIdentityField
           \<longleftrightarrow> (\<exists>parsed uid. parse_scanned sd = Some parsed
                  \<and> get_prop parsed (js ''userId'') = Inr uid \<and> falsy uid)"
  using assms
  by (auto simp: scan_def mark_present_def Let_def get_prop_Inl
      split: option.splits sum.splits prod.splits if_splits dest: User_findOne_Inl)

lemma scan_null:
  assumes "truthy sd" "truthy ab" "parse_scanned sd = Some JNull"
  shows "scan cast now stamp s (Some sd) (Some ab) = (Inl InternalError, s)"
  using assms by (simp add: scan_def)

lemma register_stores_payload:
  assumes "register hashed s (Some nm) (Some uid) (Some b) (Some (js ''user'')) (Some pw) = (Inr r, s')"
  shows "users s' = users s @
           [\<lparr>name = nm, userId = uid, bus = b, role = js ''user'', password = hashed,
             qrCode = Some (JSON_stringify_obj (qrData uid nm b (js ''user''))),
             attendance = js ''Absent''\<rparr>]
         \<and> ledger s' = ledger s"
  using assms by (auto simp: register_def Let_def split: if_splits)

subsection \<open>Ledger documents belong to known identities\<close>

text \<open>
  The empty store has the property, and registration, scan and sweep keep it.
\<close>

lemma ledger_of_known_iff:
  "ledger_of_known s \<longleftrightarrow> (\<forall>e \<in> set (ledger s). a_userId e \<in> userId ` set (users s))"
  unfolding ledger_of_known_def list_all_iff list_ex_iff image_iff
  by (rule ball_cong [OF refl]) (rule bex_cong [OF refl], rule eq_commute)

lemma ledger_of_known_empty: "ledger_of_known \<lparr>users = [], ledger = []\<rparr>"
  by (simp add: ledger_of_known_def)

lemma register_store:
  "ledger (snd (register hashed s nm uid b r pw)) = ledger s
   \<and> set (users s) \<subseteq> set (users (snd (register hashed s nm uid b r pw)))"
  by (auto simp: register_def Let_def split: option.splits if_splits)

lemma ledger_of_known_register:
  assumes "ledger_of_known s"
  shows "ledger_of_known (snd (register hashed s nm uid b r pw))"
  using assms register_store [of hashed s nm uid b r pw]
  unfolding ledger_of_known_iff by (metis image_mono subsetD)

lemma User_findOne_member:
  assumes "User_findOne cast us key = Inr (Some (i, u))"
  shows "i < length us \<and> us ! i = u"
proof -
  from assms obtain P where "findOne P us = Some (i, u)"
    by (cases key) (auto simp: User_findOne_def split: option.splits)
  then show ?thesis
    by (simp add: findOne_Some)
qed

lemma userId_update_attendance:
  assumes "i < length us" "us ! i = u"
  shows "userId ` set (us[i := u\<lparr>attendance := v\<rparr>]) = userId ` set us"
proof -
  have "map userId (us[i := u\<lparr>attendance := v\<rparr>]) = map userId us"
    using assms by (simp add: map_update list_update_same_conv)
  then have "set (map userId (us[i := u\<lparr>attendance := v\<rparr>])) = set (map userId us)"
    by simp
  then show ?thesis
    by (simp only: set_map)
qed

lemma ledger_of_known_scan:
  assumes "ledger_of_known s"
  shows "ledger_of_known (snd (scan cast now stamp s sd ab))"
proof (cases "scan cast now stamp s sd ab")
  case (Pair res s')
  show ?thesis
  proof (cases res)
    case (Inl e)
    with Pair have "s' = s"
      by (simp add: scan_failure_store)
    with Pair assms show ?thesis by simp
  next
    case (Inr r)
    with Pair have ok: "scan cast now stamp s sd ab = (Inr r, s')"
      by simp
    then obtain key i u where f: "User_findOne cast (users s) key = Inr (Some (i, u))"
      and m: "mark_present now stamp s i u = (Inr r, s')"
      by (rule scan_success_cases)
    from User_findOne_member [OF f] have iu: "i < length (users s)" "users s ! i = u"
      by simp_all
    then have mem: "userId u \<in> userId ` set (users s)"
      by (metis imageI nth_mem)
    from m have s': "users s' = (users s)[i := u\<lparr>attendance := js ''Present''\<rparr>]"
      "ledger s' = (if day_rows (ledger s) (userId u) now = [] then ledger s @
          [\<lparr>a_userId = userId u, a_bus = bus u, a_date = stamp, a_status = js ''Present''\<rparr>]
          else ledger s)"
      by (auto simp: mark_present_result)
    have us: "userId ` set (users s') = userId ` set (users s)"
      unfolding s' by (rule userId_update_attendance [OF iu])
    have "ledger s' = ledger s
        \<or> ledger s' = ledger s @ [\<lparr>a_userId = userId u, a_bus = bus u, a_date = stamp,
                                   a_status = js ''Present''\<rparr>]"
      unfolding s' by simp
    then have "\<forall>e \<in> set (ledger s'). a_userId e \<in> userId ` set (users s)"
      using assms mem by (auto simp: ledger_of_known_iff)
    then have "ledger_of_known s'"
      unfolding ledger_of_known_iff us .
    with Pair show ?thesis by simp
  qed
qed

lemma autoAbsent_loop_keys:
  assumes "\<forall>e \<in> set led. a_userId e \<in> K" "\<forall>u \<in> set us. userId u \<in> K"
  shows "\<forall>e \<in> set (autoAbsent_loop start end stamp i us led). a_userId e \<in> K"
  using assms
proof (induction us arbitrary: i led)
  case Nil
  then show ?case by simp
next
  case (Cons u us)
  define led' where "led' = (case Attendance_findOne led (userId u) start end of
          None \<Rightarrow> led @ [\<lparr>a_userId = userId u, a_bus = bus u, a_date = stamp i,
                    a_status = js ''Absent''\<rparr>]
        | Some _ \<Rightarrow> led)"
  have "\<forall>e \<in> set led'. a_userId e \<in> K"
    using Cons.prems by (cases "Attendance_findOne led (userId u) start end") (simp_all add: led'_def)
  moreover have "\<forall>u \<in> set us. userId u \<in> K"
    using Cons.prems(2) by simp
  ultimately have "\<forall>e \<in> set (autoAbsent_loop start end stamp (Suc i) us led'). a_userId e \<in> K"
    by (rule Cons.IH)
  then show ?case
    by (simp add: led'_def)
qed

lemma ledger_of_known_autoAbsent:
  assumes "ledger_of_known s"
  shows "ledger_of_known (autoAbsent now stamp s)"
proof -
  have "\<forall>u \<in> set (filter (\<lambda>u. role u = js ''user'') (users s)). userId u \<in> userId ` set (users s)"
    by simp
  with assms have "\<forall>e \<in> set (autoAbsent_loop (setHours now 0 0 0 0)
        (setHours (setHours now 0 0 0 0) 23 59 59 999) stamp 0
        (filter (\<lambda>u. role u = js ''user'') (users s)) (ledger s)).
      a_userId e \<in> userId ` set (users s)"
    unfolding ledger_of_known_iff by (intro autoAbsent_loop_keys)
  then show ?thesis
    by (simp add: ledger_of_known_iff autoAbsent_def Let_def)
qed

end
